theory Spec2Isabelle
  imports Main "HOL-Library.Word"
begin

unbundle bit_operations_syntax

section \<open>JavaScript values and strings\<close>

text \<open>
  A JavaScript string is modelled as a list of code units below 256 (\<^typ>\<open>string\<close>), so
  that \<open>charCodeAt\<close> is \<^const>\<open>of_char\<close>. The arguments of the public operations are
  dynamically typed. The service inspects such a value in three ways only: by
  \<open>Number.isInteger\<close>, by \<open>typeof v === 'string'\<close>, and by rendering it inside a template
  literal. A value is therefore an integral number, a string, or any other value
  (a fractional number, \<open>NaN\<close>, \<open>undefined\<close>, \<open>null\<close>, a boolean, an array, an object),
  which is represented by its template rendering.
\<close>

datatype jsval = JInt int | JStr string | JOther string

fun is_string :: "jsval \<Rightarrow> bool" where
  "is_string (JStr s) = True"
| "is_string v = False"

text \<open>Decimal rendering of a number, as a template literal does it.\<close>

definition digit_char :: "nat \<Rightarrow> char" where
  "digit_char d = ''0123456789'' ! d"

fun digits :: "nat \<Rightarrow> string" where
  "digits n = (if n < 10 then [digit_char n] else digits (n div 10) @ [digit_char (n mod 10)])"

declare digits.simps [simp del]

definition show_int :: "int \<Rightarrow> string" where
  "show_int i = (if i < 0 then CHR ''-'' # digits (nat (- i)) else digits (nat i))"

fun toString :: "jsval \<Rightarrow> string" where
  "toString (JInt i) = show_int i"
| "toString (JStr s) = s"
| "toString (JOther s) = s"

text \<open>
  \<open>String.prototype.trim\<close> strips white space and line terminators from both ends. Among
  the code units below 256 these are tab, line feed, vertical tab, form feed, carriage
  return, space and the no-break space.
\<close>

definition is_js_whitespace :: "char \<Rightarrow> bool" where
  "is_js_whitespace c = ((of_char c :: nat) \<in> {9, 10, 11, 12, 13, 32, 160})"

definition js_trim :: "string \<Rightarrow> string" where
  "js_trim s = rev (dropWhile is_js_whitespace (rev (dropWhile is_js_whitespace s)))"

text \<open>\<open>Array.prototype.join\<close> on an array of strings.\<close>

fun js_join :: "string \<Rightarrow> string list \<Rightarrow> string" where
  "js_join sep [] = []"
| "js_join sep [x] = x"
| "js_join sep (x # y # ys) = x @ sep @ js_join sep (y # ys)"

definition is_digit :: "char \<Rightarrow> bool" where
  "is_digit c = (48 \<le> (of_char c :: nat) \<and> (of_char c :: nat) \<le> 57)"

section \<open>Errors\<close>

text \<open>
  The error classes. \<open>ValidationError\<close>, \<open>ServiceError\<close> and \<open>NetworkError\<close> are
  declared by the error utilities of the repository; the service itself throws with
  \<open>new Error(message)\<close>; \<open>TypeError\<close> is what the language throws on a write to a frozen
  object. A thrown error is the \<open>Inl\<close> of a result.
\<close>

datatype error_class = Error | ValidationError | ServiceError | NetworkError | TypeError

datatype js_error = Thrown (error_class: error_class) (message: string)

section \<open>Static tables of the service\<close>

definition MEDICAID_INCOME_LIMITS :: "(int \<times> int) list" where
  "MEDICAID_INCOME_LIMITS =
    [(1, 20783), (2, 28207), (3, 35632), (4, 43056),
     (5, 50481), (6, 57905), (7, 65330), (8, 72754)]"

definition VALID_DC_ZIP_CODES :: "string list" where
  "VALID_DC_ZIP_CODES =
    [''20001'', ''20002'', ''20003'', ''20004'', ''20005'', ''20006'', ''20007'', ''20008'',
     ''20009'', ''20010'', ''20011'', ''20012'', ''20015'', ''20016'', ''20017'', ''20018'',
     ''20019'', ''20020'', ''20024'', ''20026'', ''20027'', ''20029'', ''20030'', ''20032'',
     ''20036'', ''20037'', ''20052'', ''20053'', ''20056'', ''20057'', ''20064'', ''20066'',
     ''20071'', ''20090'', ''20091'', ''20201'', ''20204'', ''20228'', ''20240'', ''20260'']"

text \<open>
  Prices and budget bounds are amounts of money: the constructor rejects a negative price and
  every tier's range is non-negative, so they are natural numbers. The multiplier of the
  last tier is \<open>Infinity\<close>.
\<close>

datatype multiplier = Times int | Infinity

record tier_config =
  multiplier :: multiplier
  cfg_budgetRange :: "nat \<times> nat"
  cfg_tier :: string
  cfg_name :: string

definition MEDICAID_ELIGIBLE :: tier_config where
  "MEDICAID_ELIGIBLE = \<lparr>multiplier = Times 1, cfg_budgetRange = (0, 50),
     cfg_tier = ''medicaid_eligible'', cfg_name = ''Medicaid Eligible''\<rparr>"

definition LOW_INCOME_GAP :: tier_config where
  "LOW_INCOME_GAP = \<lparr>multiplier = Times 2, cfg_budgetRange = (0, 100),
     cfg_tier = ''low_income_gap'', cfg_name = ''Low-Income Gap''\<rparr>"

definition MODERATE_INCOME :: tier_config where
  "MODERATE_INCOME = \<lparr>multiplier = Times 3, cfg_budgetRange = (50, 200),
     cfg_tier = ''moderate_income'', cfg_name = ''Moderate Income''\<rparr>"

definition ANY_INCOME :: tier_config where
  "ANY_INCOME = \<lparr>multiplier = Infinity, cfg_budgetRange = (0, 500),
     cfg_tier = ''any_income'', cfg_name = ''Any Income''\<rparr>"

text \<open>\<open>Object.entries(TIER_CONFIG)\<close>: the entries in insertion order.\<close>

definition TIER_CONFIG :: "(string \<times> tier_config) list" where
  "TIER_CONFIG =
    [(''MEDICAID_ELIGIBLE'', MEDICAID_ELIGIBLE), (''LOW_INCOME_GAP'', LOW_INCOME_GAP),
     (''MODERATE_INCOME'', MODERATE_INCOME), (''ANY_INCOME'', ANY_INCOME)]"

definition FRAME_STYLE_IMAGES :: "(string \<times> string) list" where
  "FRAME_STYLE_IMAGES =
    [(''round'', ''https://via.placeholder.com/300x200/f0f0f0/333333?text=Round+Frame''),
     (''square'', ''https://via.placeholder.com/300x200/e8e8e8/444444?text=Square+Frame''),
     (''aviator'', ''https://via.placeholder.com/300x200/f5f5f5/555555?text=Aviator+Frame''),
     (''rectangular'', ''https://via.placeholder.com/300x200/f2f2f2/666666?text=Rectangular''),
     (''classic'', ''https://via.placeholder.com/300x200/eeeeee/333333?text=Classic+Frame''),
     (''cat-eye'', ''https://via.placeholder.com/300x200/f8f8f8/444444?text=Cat+Eye'')]"

section \<open>Catalog items\<close>

text \<open>
  A raw item of the static data and the frozen item \<open>_createGlassesItem\<close> makes of it.
  The fields \<open>price\<close>, \<open>image_url\<close> and \<open>url\<close> may be absent from the raw data.
\<close>

record raw_item =
  raw_site :: string
  raw_name :: string
  raw_numeric_price :: int
  raw_features :: string
  raw_url :: "string option"
  raw_frame_style :: string
  raw_material :: string
  raw_price :: "string option"
  raw_image_url :: "string option"

record glasses =
  site :: string
  name :: string
  numeric_price :: nat
  features :: string
  url :: string
  frame_style :: string
  material :: string
  item_id :: string
  price :: string
  image_url :: string
  created_at :: string

text \<open>\<open>_generateId\<close>: lower case, every character outside \<open>[a-z0-9]\<close> replaced by a hyphen.\<close>

definition normalize_char :: "char \<Rightarrow> char" where
  "normalize_char c =
    (let n = (of_char c :: nat) in
     if 65 \<le> n \<and> n \<le> 90 then char_of (n + 32)
     else if (97 \<le> n \<and> n \<le> 122) \<or> (48 \<le> n \<and> n \<le> 57) then c
     else CHR ''-'')"

definition generateId :: "string \<Rightarrow> string \<Rightarrow> string" where
  "generateId s n = map normalize_char s @ ''-'' @ map normalize_char n"

text \<open>\<open>x || y\<close> on strings: the empty string is falsy.\<close>

definition or_else :: "string option \<Rightarrow> string \<Rightarrow> string" where
  "or_else x d = (case x of None \<Rightarrow> d | Some s \<Rightarrow> if s = [] then d else s)"

definition getDefaultImage :: "string \<Rightarrow> string" where
  "getDefaultImage frameStyle =
    or_else (map_of FRAME_STYLE_IMAGES frameStyle)
      (or_else (map_of FRAME_STYLE_IMAGES ''classic'') ''undefined'')"

text \<open>
  \<open>_createGlassesItem\<close>. A required field is missing when it is falsy and not \<open>0\<close>: for the
  string fields, when it is empty. The second argument is the reading of the clock.
\<close>

definition missing_fields :: "raw_item \<Rightarrow> string list" where
  "missing_fields item =
    map fst (filter (\<lambda>(field, v). v = [])
      [(''site'', raw_site item), (''name'', raw_name item), (''features'', raw_features item),
       (''frame_style'', raw_frame_style item), (''material'', raw_material item)])"

definition createGlassesItem :: "string \<Rightarrow> raw_item \<Rightarrow> js_error + glasses" where
  "createGlassesItem now item =
    (let missing = missing_fields item in
     if length missing > 0 then
       Inl (Thrown Error (''Missing required fields for glasses item: '' @ js_join '', '' missing))
     else if raw_numeric_price item < 0 then
       Inl (Thrown Error (''Invalid numeric_price for '' @ raw_name item @ '': must be a positive number''))
     else Inr \<lparr>site = raw_site item, name = raw_name item,
       numeric_price = nat (raw_numeric_price item), features = raw_features item,
       url = or_else (raw_url item) ''#'', frame_style = raw_frame_style item,
       material = raw_material item, item_id = generateId (raw_site item) (raw_name item),
       price = or_else (raw_price item) (''$'' @ show_int (raw_numeric_price item)),
       image_url = or_else (raw_image_url item) (getDefaultImage (raw_frame_style item)),
       created_at = now\<rparr>)"

definition mk_raw :: "string \<Rightarrow> nat \<Rightarrow> string \<Rightarrow> string \<Rightarrow> string \<Rightarrow> string \<Rightarrow> raw_item" where
  "mk_raw n p f u fs m = \<lparr>raw_site = ''Warby Parker'', raw_name = n, raw_numeric_price = int p,
     raw_features = f, raw_url = Some u, raw_frame_style = fs, raw_material = m,
     raw_price = None, raw_image_url = None\<rparr>"

definition rawData :: "raw_item list" where
  "rawData =
    [mk_raw ''Felix'' 95 ''Square acetate frame, modern design, comfortable fit''
       ''https://www.warbyparker.com/eyeglasses/felix/jet-black'' ''square'' ''Acetate'',
     mk_raw ''Hardy'' 95 ''Rectangular acetate frame, classic styling, durable construction''
       ''https://www.warbyparker.com/eyeglasses/hardy/whiskey-tortoise'' ''rectangular'' ''Acetate'',
     mk_raw ''Percey'' 95 ''Metal frame, blue light filtering, adjustable nose pads''
       ''https://www.warbyparker.com/eyeglasses/percey/polished-gold'' ''round'' ''Metal'',
     mk_raw ''Chamberlain'' 145 ''Titanium frame, progressive lenses, lightweight design''
       ''https://www.warbyparker.com/eyeglasses/chamberlain/brushed-navy'' ''rectangular'' ''Titanium'',
     mk_raw ''Rafael'' 145
       ''Rounded lenses, slender-yet-sturdy construction, endlessly versatile pairing''
       ''https://www.warbyparker.com/eyeglasses/rafael/jet-black'' ''round'' ''Stainless Steel'',
     mk_raw ''Durand'' 45 ''Basic acetate frame, single vision, durable construction''
       ''https://www.warbyparker.com/eyeglasses/durand/jet-black'' ''square'' ''Acetate'',
     mk_raw ''Burke'' 35 ''Simple plastic frame, reading glasses, comfortable fit''
       ''https://www.warbyparker.com/eyeglasses/burke/matte-black'' ''rectangular'' ''Plastic'',
     mk_raw ''Caldwell'' 25 ''Ultra-budget frame, basic lenses, essential eyewear''
       ''https://www.warbyparker.com/eyeglasses/caldwell/crystal-clear'' ''round'' ''Plastic'']"

text \<open>\<open>rawData.map(item => this._createGlassesItem(item))\<close>: the first throw aborts the map.\<close>

fun map_throwing :: "('a \<Rightarrow> js_error + 'b) \<Rightarrow> 'a list \<Rightarrow> js_error + 'b list" where
  "map_throwing f [] = Inr []"
| "map_throwing f (x # xs) =
    (case f x of Inl e \<Rightarrow> Inl e
     | Inr y \<Rightarrow> (case map_throwing f xs of Inl e \<Rightarrow> Inl e | Inr ys \<Rightarrow> Inr (y # ys)))"

definition initializeGlassesData :: "string \<Rightarrow> js_error + glasses list" where
  "initializeGlassesData now = map_throwing (createGlassesItem now) rawData"

section \<open>Assistance resources\<close>

record resource =
  res_name :: string
  res_description :: "string option"
  res_phone :: "string option"
  res_address :: "string option"
  res_website :: "string option"
  res_eligibility :: "string option"

record dc_resources =
  medicaid_providers :: "resource list"
  discount_programs :: "resource list"
  local_stores :: "resource list"

definition initializeDCResources :: dc_resources where
  "initializeDCResources = \<lparr>
    medicaid_providers =
      [\<lparr>res_name = ''DC Medicaid Vision Benefits'',
        res_description = Some ''Covers eye exams and glasses for Medicaid recipients'',
        res_phone = Some ''1-800-635-1663'', res_address = None,
        res_website = Some ''https://dhcf.dc.gov'', res_eligibility = None\<rparr>,
       \<lparr>res_name = ''Martha's Table Eye Care'',
        res_description = Some ''Free eye exams and glasses for low-income families'',
        res_phone = Some ''(202) 328-6608'',
        res_address = Some ''2114 14th St NW, Washington, DC 20009'',
        res_website = None, res_eligibility = None\<rparr>],
    discount_programs =
      [\<lparr>res_name = ''Warby Parker Pupils Project'',
        res_description = Some ''Provides glasses to students and low-income individuals'',
        res_phone = None, res_address = None, res_website = None,
        res_eligibility = Some ''Students and income-qualified individuals''\<rparr>,
       \<lparr>res_name = ''OneSight'',
        res_description = Some ''Mobile clinics providing free eye care in D.C.'',
        res_phone = None, res_address = None,
        res_website = Some ''https://onesight.org'', res_eligibility = None\<rparr>],
    local_stores =
      [\<lparr>res_name = ''LensCrafters - Dupont Circle'', res_description = None,
        res_phone = Some ''(202) 822-2020'',
        res_address = Some ''1150 Connecticut Ave NW, Washington, DC 20036'',
        res_website = None, res_eligibility = None\<rparr>,
       \<lparr>res_name = ''Pearle Vision - Columbia Heights'', res_description = None,
        res_phone = Some ''(202) 387-7327'',
        res_address = Some ''3100 14th St NW, Washington, DC 20010'',
        res_website = None, res_eligibility = None\<rparr>]\<rparr>"

section \<open>Results and the state of the service\<close>

text \<open>
  The result of an assessment. \<open>getPersonalizedRecommendations\<close> takes such an object
  from its caller, where \<open>budgetRange\<close> may be absent.
\<close>

record eligibility =
  tier :: string
  tierName :: string
  budgetRange :: "(nat \<times> nat) option"
  householdSize :: int
  annualIncome :: int
  zipCode :: string
  medicaidLimit :: "int option"
  resources :: "resource list"
  assessedAt :: string

record recommendations =
  rec_tier :: string
  rec_tierName :: string
  rec_budgetRange :: string
  totalOptions :: nat
  topRecommendations :: "glasses list"
  allRecommendations :: "glasses list"
  priorityMessage :: string
  generatedAt :: string

text \<open>The one cache of the service holds both kinds of result, under string keys.\<close>

datatype cached = CEligibility eligibility | CRecommendations recommendations

record service =
  glassesData :: "glasses list"
  dcResources :: dc_resources
  cache :: "string \<rightharpoonup> cached"

text \<open>
  The constructor reads the clock once for every item; the model takes one reading.
  \<open>fresh\<close> is a service over any catalog and resource lists, with an empty cache.
\<close>

definition fresh :: "glasses list \<Rightarrow> dc_resources \<Rightarrow> service" where
  "fresh cat res = \<lparr>glassesData = cat, dcResources = res, cache = Map.empty\<rparr>"

definition new_GlassesService :: "string \<Rightarrow> js_error + service" where
  "new_GlassesService now =
    (case initializeGlassesData now of Inl e \<Rightarrow> Inl e
     | Inr cat \<Rightarrow> Inr (fresh cat initializeDCResources))"

definition clearCache :: "service \<Rightarrow> service" where
  "clearCache st = st\<lparr>cache := Map.empty\<rparr>"

section \<open>Validation\<close>

text \<open>
  \<open>validateDCZipCode\<close>: \<open>false\<close> for anything that is not a string, otherwise membership
  of the trimmed string in the set of zip codes.
\<close>

fun validateDCZipCode :: "jsval \<Rightarrow> bool" where
  "validateDCZipCode (JStr zc) = (js_trim zc \<in> set VALID_DC_ZIP_CODES)"
| "validateDCZipCode v = False"

fun householdSize_invalid :: "jsval \<Rightarrow> bool" where
  "householdSize_invalid (JInt h) = (h < 1 \<or> h > 15)"
| "householdSize_invalid v = True"

fun annualIncome_invalid :: "jsval \<Rightarrow> bool" where
  "annualIncome_invalid (JInt i) = (i < 0)"
| "annualIncome_invalid v = True"

text \<open>The array \<open>errors\<close> that \<open>_validateInputs\<close> fills, one message for each failed check.\<close>

definition validation_errors :: "jsval \<Rightarrow> jsval \<Rightarrow> jsval \<Rightarrow> string list" where
  "validation_errors h i z =
    (if householdSize_invalid h then [''Household size must be between 1 and 15 people''] else []) @
    (if annualIncome_invalid i then [''Annual income must be a positive number''] else []) @
    (if \<not> validateDCZipCode z then
       [''Invalid D.C. zip code: '' @ toString z @
        ''. Must be a valid D.C. zip code (e.g., 20001, 20009, 20036)'']
     else [])"

text \<open>
  \<open>_validateInputs\<close> throws when \<open>errors\<close> is not empty. Otherwise the three values are two
  integers and a string, which the model hands on as such.
\<close>

definition validateInputs :: "jsval \<Rightarrow> jsval \<Rightarrow> jsval \<Rightarrow> js_error + (int \<times> int \<times> string)" where
  "validateInputs h i z =
    (let errors = validation_errors h i z in
     if length errors > 0 then Inl (Thrown Error (js_join ''; '' errors))
     else (case (h, i, z) of
             (JInt hn, JInt inc, JStr zs) \<Rightarrow> Inr (hn, inc, zs)
           | _ \<Rightarrow> Inl (Thrown Error (js_join ''; '' errors))))"

section \<open>Tier determination\<close>

text \<open>
  \<open>annualIncome <= medicaidLimit * config.multiplier\<close>. A positive limit times \<open>Infinity\<close>
  is \<open>Infinity\<close>; zero times \<open>Infinity\<close> is \<open>NaN\<close> and a negative limit gives \<open>-Infinity\<close>,
  where the comparison is false.
\<close>

fun within_limit :: "int \<Rightarrow> int \<Rightarrow> multiplier \<Rightarrow> bool" where
  "within_limit income lim (Times m) = (income \<le> lim * m)"
| "within_limit income lim Infinity = (0 < lim)"

text \<open>The loop of \<open>_determineTier\<close> over the entries; \<open>None\<close> when it falls through.\<close>

fun first_tier :: "int \<Rightarrow> int \<Rightarrow> (string \<times> tier_config) list \<Rightarrow> tier_config option" where
  "first_tier income lim [] = None"
| "first_tier income lim ((tierKey, config) # rest) =
    (if tierKey = ''ANY_INCOME'' then first_tier income lim rest
     else if within_limit income lim (multiplier config) then Some config
     else first_tier income lim rest)"

text \<open>
  \<open>_determineTier\<close> returns the configuration together with \<open>medicaidLimit\<close>. A household
  size without an entry in the table gives \<open>undefined\<close>: every comparison is then false and
  the loop falls through.
\<close>

definition determineTier :: "int \<Rightarrow> int \<Rightarrow> tier_config \<times> int option" where
  "determineTier income hSize =
    (case map_of MEDICAID_INCOME_LIMITS (min hSize 8) of
       None \<Rightarrow> (ANY_INCOME, None)
     | Some lim \<Rightarrow>
         (case first_tier income lim TIER_CONFIG of
            Some config \<Rightarrow> (config, Some lim)
          | None \<Rightarrow> (ANY_INCOME, Some lim)))"

section \<open>Eligibility assessment\<close>

definition getRelevantResources :: "service \<Rightarrow> string \<Rightarrow> resource list" where
  "getRelevantResources st t =
    (let allResources = discount_programs (dcResources st) @ local_stores (dcResources st) in
     if t = ''medicaid_eligible'' then medicaid_providers (dcResources st) @ allResources
     else allResources)"

definition eligibility_key :: "jsval \<Rightarrow> jsval \<Rightarrow> jsval \<Rightarrow> string" where
  "eligibility_key h i z =
    ''eligibility-'' @ toString h @ ''-'' @ toString i @ ''-'' @ toString z"

text \<open>
  \<open>assessEligibility\<close>. The second argument is the reading of the clock. The cache is
  consulted before the inputs are validated; a hit returns the cached object as it is.
\<close>

definition assessEligibility ::
  "service \<Rightarrow> string \<Rightarrow> jsval \<Rightarrow> jsval \<Rightarrow> jsval \<Rightarrow> js_error + (cached \<times> service)" where
  "assessEligibility st now h i z =
    (let cacheKey = eligibility_key h i z in
     case cache st cacheKey of
       Some hit \<Rightarrow> Inr (hit, st)
     | None \<Rightarrow>
        (case validateInputs h i z of
           Inl e \<Rightarrow> Inl e
         | Inr (hn, inc, zs) \<Rightarrow>
            (let (tierConfig, limit) = determineTier inc hn;
                 res = getRelevantResources st (cfg_tier tierConfig);
                 elig = \<lparr>tier = cfg_tier tierConfig, tierName = cfg_name tierConfig,
                   budgetRange = Some (cfg_budgetRange tierConfig),
                   householdSize = hn, annualIncome = inc, zipCode = zs,
                   medicaidLimit = limit, resources = res, assessedAt = now\<rparr>
             in Inr (CEligibility elig, st\<lparr>cache := (cache st)(cacheKey \<mapsto> CEligibility elig)\<rparr>))))"

section \<open>Recommendations\<close>

text \<open>
  \<open>Array.prototype.sort\<close> with a comparator is stable: an element is placed before the
  first element it does not compare greater than. The comparator of the service is the
  difference of the prices.
\<close>

fun insert_by :: "('a \<Rightarrow> 'a \<Rightarrow> int) \<Rightarrow> 'a \<Rightarrow> 'a list \<Rightarrow> 'a list" where
  "insert_by cmp x [] = [x]"
| "insert_by cmp x (y # ys) = (if cmp x y \<le> 0 then x # y # ys else y # insert_by cmp x ys)"

definition js_sort :: "('a \<Rightarrow> 'a \<Rightarrow> int) \<Rightarrow> 'a list \<Rightarrow> 'a list" where
  "js_sort cmp xs = foldr (insert_by cmp) xs []"

definition by_price :: "glasses \<Rightarrow> glasses \<Rightarrow> int" where
  "by_price a b = int (numeric_price a) - int (numeric_price b)"

text \<open>
  \<open>_getPriorityMessage\<close>: four fixed messages, the last one for any other tier. Each message
  of the source starts with an emoji, which lies outside the character range of the model
  and is left out.
\<close>

definition priority_messages :: "(string \<times> string) list" where
  "priority_messages =
    [(''medicaid_eligible'',
      '' You may qualify for free glasses through D.C. Medicaid! Contact the providers listed below first.''),
     (''low_income_gap'',
      '' You're in the coverage gap - check discount programs and consider the most affordable options below.''),
     (''moderate_income'', '' You have moderate income flexibility - focus on value and quality.''),
     (''any_income'', '' You have budget flexibility - explore all options for the best fit!'')]"

definition getPriorityMessage :: "string \<Rightarrow> string" where
  "getPriorityMessage t =
    or_else (map_of priority_messages t) (or_else (map_of priority_messages ''any_income'') ''undefined'')"

definition recommendations_key :: "string \<Rightarrow> nat \<Rightarrow> nat \<Rightarrow> string" where
  "recommendations_key t budgetMin budgetMax =
    ''recommendations-'' @ t @ ''-'' @ js_join ''-'' [digits budgetMin, digits budgetMax]"

definition invalid_eligibility :: js_error where
  "invalid_eligibility = Thrown Error ''Invalid eligibility data provided''"

text \<open>
  \<open>getPersonalizedRecommendations\<close>. The argument is \<open>None\<close> for a falsy value. The only
  check is that the object and its \<open>budgetRange\<close> are there.
\<close>

definition getPersonalizedRecommendations ::
  "service \<Rightarrow> string \<Rightarrow> eligibility option \<Rightarrow> js_error + (cached \<times> service)" where
  "getPersonalizedRecommendations st now arg =
    (case arg of
       None \<Rightarrow> Inl invalid_eligibility
     | Some elig \<Rightarrow>
        (case budgetRange elig of
           None \<Rightarrow> Inl invalid_eligibility
         | Some (budgetMin, budgetMax) \<Rightarrow>
            (let cacheKey = recommendations_key (tier elig) budgetMin budgetMax in
             case cache st cacheKey of
               Some hit \<Rightarrow> Inr (hit, st)
             | None \<Rightarrow>
                (let suitableGlasses =
                       js_sort by_price
                         (filter (\<lambda>g. numeric_price g \<ge> budgetMin \<and> numeric_price g \<le> budgetMax)
                            (glassesData st));
                     recs = \<lparr>rec_tier = tier elig, rec_tierName = tierName elig,
                       rec_budgetRange = ''$'' @ digits budgetMin @ ''-$'' @ digits budgetMax,
                       totalOptions = length suitableGlasses,
                       topRecommendations = take 10 suitableGlasses,
                       allRecommendations = suitableGlasses,
                       priorityMessage = getPriorityMessage (tier elig),
                       generatedAt = now\<rparr>
                 in Inr (CRecommendations recs,
                         st\<lparr>cache := (cache st)(cacheKey \<mapsto> CRecommendations recs)\<rparr>)))))"

section \<open>Reachable states and the tiers as the specification words them\<close>

text \<open>
  The states a service goes through: a fresh one, then any sequence of successful calls
  of the operations that write the cache, with any arguments, and of \<open>clearCache\<close>. A call
  that throws leaves the state as it was.
\<close>

inductive reachable :: "service \<Rightarrow> bool" where
  init: "reachable (fresh cat res)"
| assess: "reachable st \<Longrightarrow> assessEligibility st now h i z = Inr (r, st') \<Longrightarrow> reachable st'"
| recommend:
    "reachable st \<Longrightarrow> getPersonalizedRecommendations st now arg = Inr (r, st') \<Longrightarrow> reachable st'"
| clear: "reachable st \<Longrightarrow> reachable (clearCache st)"

text \<open>
  What every entry of the cache of a reachable state satisfies: it lies under the key of
  the request it was computed for, and holds what the service computes for that request.
\<close>

definition entry_ok :: "service \<Rightarrow> string \<Rightarrow> cached \<Rightarrow> bool" where
  "entry_ok st k v =
    (case v of
       CEligibility e \<Rightarrow>
         k = eligibility_key (JInt (householdSize e)) (JInt (annualIncome e)) (JStr (zipCode e)) \<and>
         validation_errors (JInt (householdSize e)) (JInt (annualIncome e)) (JStr (zipCode e)) = [] \<and>
         tier e = cfg_tier (fst (determineTier (annualIncome e) (householdSize e))) \<and>
         tierName e = cfg_name (fst (determineTier (annualIncome e) (householdSize e))) \<and>
         budgetRange e = Some (cfg_budgetRange (fst (determineTier (annualIncome e) (householdSize e)))) \<and>
         medicaidLimit e = snd (determineTier (annualIncome e) (householdSize e)) \<and>
         resources e = getRelevantResources st (tier e)
     | CRecommendations r \<Rightarrow>
         (\<exists>budgetMin budgetMax.
            k = recommendations_key (rec_tier r) budgetMin budgetMax \<and>
            allRecommendations r =
              js_sort by_price
                (filter (\<lambda>g. numeric_price g \<ge> budgetMin \<and> numeric_price g \<le> budgetMax)
                   (glassesData st)) \<and>
            topRecommendations r = take 10 (allRecommendations r) \<and>
            totalOptions r = length (allRecommendations r)))"

definition cache_consistent :: "service \<Rightarrow> bool" where
  "cache_consistent st = (\<forall>k v. cache st k = Some v \<longrightarrow> entry_ok st k v)"

text \<open>
  The tier and budget range in the words of the specification: threshold comparisons
  against the income in a fixed order, the first match wins.
\<close>

definition spec_tier :: "int \<Rightarrow> int \<Rightarrow> string \<times> (nat \<times> nat)" where
  "spec_tier income lim =
    (if income \<le> lim then (''medicaid_eligible'', (0, 50))
     else if income \<le> 2 * lim then (''low_income_gap'', (0, 100))
     else if income \<le> 3 * lim then (''moderate_income'', (50, 200))
     else (''any_income'', (0, 500)))"

text \<open>The order of the tiers: medicaid, gap, moderate, any.\<close>

definition tier_rank :: "string \<Rightarrow> nat" where
  "tier_rank t =
    (if t = ''medicaid_eligible'' then 0 else if t = ''low_income_gap'' then 1
     else if t = ''moderate_income'' then 2 else 3)"

section \<open>Sample data\<close>

definition sample_item :: "string \<Rightarrow> nat \<Rightarrow> glasses" where
  "sample_item n p = \<lparr>site = ''Warby Parker'', name = n, numeric_price = p, features = ''Frame'',
     url = ''#'', frame_style = ''round'', material = ''Acetate'',
     item_id = generateId ''Warby Parker'' n, price = ''$'' @ digits p,
     image_url = getDefaultImage ''round'', created_at = ''2025-01-01T00:00:00.000Z''\<rparr>"

definition sample_catalog :: "glasses list" where
  "sample_catalog =
    [sample_item ''Griffin'' 95, sample_item ''Percey'' 95, sample_item ''Chamberlain'' 145,
     sample_item ''Durand'' 45, sample_item ''Burke'' 35, sample_item ''Caldwell'' 25,
     sample_item ''Haskell'' 65, sample_item ''Welty'' 85]"

definition sample_request :: "string \<Rightarrow> (nat \<times> nat) option \<Rightarrow> eligibility" where
  "sample_request t b = \<lparr>tier = t, tierName = t, budgetRange = b, householdSize = 1,
     annualIncome = 0, zipCode = ''20001'', medicaidLimit = None, resources = [],
     assessedAt = ''2025-01-01T00:00:00.000Z''\<rparr>"

section \<open>The image service\<close>











record image_service =
  url_cache :: "string \<rightharpoonup> string"




definition clearImageCache :: "image_service \<Rightarrow> image_service" where
  "clearImageCache st = st\<lparr>url_cache := Map.empty\<rparr>"




section \<open>The catalog as objects in a store\<close>

text \<open>
  The catalog as objects. An array and an item are objects in a store, known by their
  addresses; an object may be frozen. \<open>Object.freeze\<close> is applied to an object when it is
  made, so allocation takes the flag.
\<close>

type_synonym addr = nat

datatype obj = Item glasses | Array "addr list"

record store =
  cells :: "addr \<rightharpoonup> obj \<times> bool"
  next_addr :: addr

definition alloc :: "store \<Rightarrow> obj \<Rightarrow> bool \<Rightarrow> addr \<times> store" where
  "alloc h v fr =
    (next_addr h, h\<lparr>cells := (cells h)(next_addr h \<mapsto> (v, fr)), next_addr := Suc (next_addr h)\<rparr>)"

definition elements :: "store \<Rightarrow> addr \<Rightarrow> addr list" where
  "elements h a = (case cells h a of Some (Array as, fr) \<Rightarrow> as | _ \<Rightarrow> [])"

definition item_at :: "store \<Rightarrow> addr \<Rightarrow> glasses option" where
  "item_at h a = (case cells h a of Some (Item g, fr) \<Rightarrow> Some g | _ \<Rightarrow> None)"

text \<open>The items an array refers to, in order.\<close>

definition catalog_of :: "store \<Rightarrow> addr \<Rightarrow> glasses list" where
  "catalog_of h a = List.map_filter (item_at h) (elements h a)"

definition price_at :: "store \<Rightarrow> addr \<Rightarrow> nat" where
  "price_at h a = (case item_at h a of Some g \<Rightarrow> numeric_price g | None \<Rightarrow> 0)"

definition style_at :: "store \<Rightarrow> addr \<Rightarrow> string" where
  "style_at h a = (case item_at h a of Some g \<Rightarrow> frame_style g | None \<Rightarrow> [])"

text \<open>
  The constructor: every item is made by \<open>_createGlassesItem\<close> and frozen, and
  \<open>_glassesData\<close> is the array of them, which is not frozen.
\<close>

fun freeze_items :: "store \<Rightarrow> glasses list \<Rightarrow> addr list \<times> store" where
  "freeze_items h [] = ([], h)"
| "freeze_items h (g # gs) =
    (let (a, h1) = alloc h (Item g) True; (as, h2) = freeze_items h1 gs in (a # as, h2))"

definition construct_glassesData :: "store \<Rightarrow> string \<Rightarrow> js_error + (addr \<times> store)" where
  "construct_glassesData h now =
    (case initializeGlassesData now of
       Inl e \<Rightarrow> Inl e
     | Inr items \<Rightarrow> (let (as, h1) = freeze_items h items in Inr (alloc h1 (Array as) False)))"

text \<open>\<open>getAllGlasses\<close>: \<open>[...this._glassesData]\<close>, a new array of the same items.\<close>

definition getAllGlasses :: "store \<Rightarrow> addr \<Rightarrow> addr \<times> store" where
  "getAllGlasses h glassesData_ref = alloc h (Array (elements h glassesData_ref)) False"

text \<open>\<open>getGlassesByPriceRange\<close>, on two numbers: \<open>filter\<close> makes a new array.\<close>

definition getGlassesByPriceRange :: "store \<Rightarrow> addr \<Rightarrow> int \<Rightarrow> int \<Rightarrow> js_error + (addr \<times> store)" where
  "getGlassesByPriceRange h glassesData_ref minPrice maxPrice =
    (if minPrice < 0 \<or> maxPrice < minPrice then Inl (Thrown Error ''Invalid price range provided'')
     else Inr (alloc h
       (Array (filter (\<lambda>a. int (price_at h a) \<ge> minPrice \<and> int (price_at h a) \<le> maxPrice)
                 (elements h glassesData_ref))) False))"

text \<open>\<open>toLowerCase\<close> on the code units below 256.\<close>

definition lower_char :: "char \<Rightarrow> char" where
  "lower_char c =
    (let n = (of_char c :: nat) in
     if (65 \<le> n \<and> n \<le> 90) \<or> (192 \<le> n \<and> n \<le> 222 \<and> n \<noteq> 215) then char_of (n + 32) else c)"

definition toLowerCase :: "string \<Rightarrow> string" where
  "toLowerCase s = map lower_char s"

text \<open>\<open>getGlassesByFrameStyle\<close>: the copy of \<open>getAllGlasses\<close> for \<open>'all'\<close>, else a filtered array.\<close>

definition getGlassesByFrameStyle :: "store \<Rightarrow> addr \<Rightarrow> jsval \<Rightarrow> js_error + (addr \<times> store)" where
  "getGlassesByFrameStyle h glassesData_ref frameStyle =
    (if frameStyle = JStr ''all'' then Inr (getAllGlasses h glassesData_ref)
     else (case frameStyle of
        JStr s \<Rightarrow> Inr (alloc h
          (Array (filter (\<lambda>a. toLowerCase (style_at h a) = toLowerCase s)
                    (elements h glassesData_ref))) False)
      | _ \<Rightarrow> Inl (Thrown Error ''Frame style must be a string'')))"

text \<open>
  The arrays of \<open>getPersonalizedRecommendations\<close>: \<open>filter\<close> makes a new array, \<open>sort\<close> sorts
  it in place, \<open>slice(0, 10)\<close> and the spread make two more arrays, which are frozen and
  become \<open>topRecommendations\<close> and \<open>allRecommendations\<close> of the frozen result.
\<close>

definition recommendation_arrays :: "store \<Rightarrow> addr \<Rightarrow> nat \<Rightarrow> nat \<Rightarrow> (addr \<times> addr) \<times> store" where
  "recommendation_arrays h glassesData_ref budgetMin budgetMax =
    (let (suitableGlasses, h1) = alloc h
           (Array (filter (\<lambda>a. price_at h a \<ge> budgetMin \<and> price_at h a \<le> budgetMax)
                     (elements h glassesData_ref))) False;
         sorted_refs = js_sort (\<lambda>a b. int (price_at h1 a) - int (price_at h1 b))
                         (elements h1 suitableGlasses);
         h2 = h1\<lparr>cells := (cells h1)(suitableGlasses \<mapsto> (Array sorted_refs, False))\<rparr>;
         (topRecs, h3) = alloc h2 (Array (take 10 (elements h2 suitableGlasses))) True;
         (allRecs, h4) = alloc h3 (Array (elements h3 suitableGlasses)) True
     in ((topRecs, allRecs), h4))"

text \<open>
  What a caller can do with a reference: replace the content of the object (assign a
  property or an element, push, sort), which throws when the object is frozen.
\<close>

definition client_write :: "store \<Rightarrow> addr \<Rightarrow> obj \<Rightarrow> js_error + store" where
  "client_write h a v =
    (case cells h a of
       None \<Rightarrow> Inl (Thrown TypeError ''Cannot set properties of undefined'')
     | Some (old, fr) \<Rightarrow>
        if fr then Inl (Thrown TypeError ''Cannot assign to read only property'')
        else Inr (h\<lparr>cells := (cells h)(a \<mapsto> (v, False))\<rparr>))"

text \<open>
  The state of the catalog that the constructor establishes: the store has handed out
  addresses below \<open>next_addr\<close> only, \<open>_glassesData\<close> is an array, and each of its elements
  is a frozen item.
\<close>

definition sealed :: "store \<Rightarrow> addr \<Rightarrow> bool" where
  "sealed h glassesData_ref =
    ((\<forall>a. a \<ge> next_addr h \<longrightarrow> cells h a = None) \<and>
     (\<exists>as fr. cells h glassesData_ref = Some (Array as, fr) \<and>
        (\<forall>a\<in>set as. \<exists>g. cells h a = Some (Item g, True))))"

text \<open>The statistics read the prices and the frame styles; the average is in hundredths.\<close>

record price_statistics =
  minPrice :: nat
  maxPrice :: nat
  avgPrice_hundredths :: nat
  totalGlasses :: nat
  medicaidEligibleOptions :: nat
  lowIncomeOptions :: nat
  moderateIncomeOptions :: nat

definition getPriceStatistics :: "service \<Rightarrow> price_statistics" where
  "getPriceStatistics st =
    (let prices = map numeric_price (glassesData st) in
     if length prices = 0 then
       \<lparr>minPrice = 0, maxPrice = 0, avgPrice_hundredths = 0, totalGlasses = 0,
        medicaidEligibleOptions = 0, lowIncomeOptions = 0, moderateIncomeOptions = 0\<rparr>
     else
       \<lparr>minPrice = Min (set prices), maxPrice = Max (set prices),
        avgPrice_hundredths = (200 * sum_list prices + length prices) div (2 * length prices),
        totalGlasses = length (glassesData st),
        medicaidEligibleOptions = length (filter (\<lambda>p. p \<le> 50) prices),
        lowIncomeOptions = length (filter (\<lambda>p. p \<le> 100) prices),
        moderateIncomeOptions = length (filter (\<lambda>p. p > 50 \<and> p \<le> 200) prices)\<rparr>)"

text \<open>\<open>getFrameStyleStatistics\<close>: the count of every frame style, by \<open>forEach\<close>.\<close>

fun count_styles :: "(string \<rightharpoonup> nat) \<Rightarrow> glasses list \<Rightarrow> (string \<rightharpoonup> nat)" where
  "count_styles styleCounts [] = styleCounts"
| "count_styles styleCounts (g # gs) =
    count_styles (styleCounts(frame_style g \<mapsto>
      (case styleCounts (frame_style g) of None \<Rightarrow> 0 | Some n \<Rightarrow> n) + 1)) gs"

definition getFrameStyleStatistics :: "service \<Rightarrow> (string \<rightharpoonup> nat)" where
  "getFrameStyleStatistics st = count_styles Map.empty (glassesData st)"

section \<open>What an accessor hands out\<close>

definition handed_out :: "store \<Rightarrow> addr \<Rightarrow> addr \<Rightarrow> store \<Rightarrow> bool" where
  "handed_out h glassesData_ref r h' =
    (sealed h' glassesData_ref \<and> cells h' glassesData_ref = cells h glassesData_ref \<and>
     catalog_of h' glassesData_ref = catalog_of h glassesData_ref \<and>
     r \<noteq> glassesData_ref \<and> cells h r = None \<and>
     set (elements h' r) \<subseteq> set (elements h glassesData_ref) \<and>
     (\<forall>a\<in>insert r (set (elements h' r)). \<forall>v h''. client_write h' a v = Inr h'' \<longrightarrow>
        sealed h'' glassesData_ref \<and> cells h'' glassesData_ref = cells h' glassesData_ref \<and>
        catalog_of h'' glassesData_ref = catalog_of h' glassesData_ref))"

section \<open>Facts about strings\<close>

lemma js_trim_decomp:
  "\<exists>l r. s = l @ js_trim s @ r \<and> (\<forall>c\<in>set l. is_js_whitespace c) \<and> (\<forall>c\<in>set r. is_js_whitespace c)"
proof -
  define t where "t = dropWhile is_js_whitespace s"
  define l where "l = takeWhile is_js_whitespace s"
  define r where "r = rev (takeWhile is_js_whitespace (rev t))"
  have s: "s = l @ t"
    by (simp add: l_def t_def)
  have "t = rev (takeWhile is_js_whitespace (rev t) @ dropWhile is_js_whitespace (rev t))"
    by simp
  also have "\<dots> = rev (dropWhile is_js_whitespace (rev t)) @ rev (takeWhile is_js_whitespace (rev t))"
    by (rule rev_append)
  finally have t: "t = js_trim s @ r"
    unfolding js_trim_def r_def t_def .
  have "\<forall>c\<in>set l. is_js_whitespace c"
    unfolding l_def by (auto dest: set_takeWhileD)
  moreover have "\<forall>c\<in>set r. is_js_whitespace c"
    unfolding r_def by (auto dest: set_takeWhileD)
  ultimately show ?thesis
    using s t by auto
qed

lemma dropWhile_ws_prefix:
  "\<forall>c\<in>set l. is_js_whitespace c \<Longrightarrow> z \<noteq> [] \<Longrightarrow> \<not> is_js_whitespace (hd z)
    \<Longrightarrow> dropWhile is_js_whitespace (l @ z @ r) = z @ r"
  by (induction l) (auto simp: neq_Nil_conv)

lemma js_trim_surrounded:
  assumes l: "\<forall>c\<in>set l. is_js_whitespace c" and r: "\<forall>c\<in>set r. is_js_whitespace c"
    and z: "z \<noteq> []" "\<not> is_js_whitespace (hd z)" "\<not> is_js_whitespace (last z)"
  shows "js_trim (l @ z @ r) = z"
proof -
  have 1: "dropWhile is_js_whitespace (l @ z @ r) = z @ r"
    using l z(1,2) by (rule dropWhile_ws_prefix)
  have "dropWhile is_js_whitespace (rev r @ rev z @ []) = rev z @ []"
    using r z by (intro dropWhile_ws_prefix) (auto simp: hd_rev)
  then show ?thesis
    by (simp add: js_trim_def 1)
qed

lemma digit_not_whitespace: "is_digit c \<Longrightarrow> \<not> is_js_whitespace c"
  by (auto simp: is_digit_def is_js_whitespace_def)

lemma zip_codes_digits:
  "list_all (\<lambda>z. z \<noteq> [] \<and> list_all is_digit z) VALID_DC_ZIP_CODES"
  by (simp add: VALID_DC_ZIP_CODES_def is_digit_def)

lemma zip_code_ends:
  assumes "z \<in> set VALID_DC_ZIP_CODES"
  shows "z \<noteq> [] \<and> \<not> is_js_whitespace (hd z) \<and> \<not> is_js_whitespace (last z)"
proof -
  from assms zip_codes_digits have z: "z \<noteq> []" "list_all is_digit z"
    by (auto simp: list_all_iff)
  then have "is_digit (hd z)" "is_digit (last z)"
    by (auto simp: list_all_iff)
  with z show ?thesis
    by (simp add: digit_not_whitespace)
qed

section \<open>Decimal rendering and cache keys\<close>

lemma of_char_digit_char:
  assumes "d < 10"
  shows "(of_char (digit_char d) :: nat) = 48 + d"
proof -
  from assms have "d \<in> {0, 1, 2, 3, 4, 5, 6, 7, 8, 9}" by auto
  then show ?thesis
    by (auto simp: digit_char_def)
qed

lemma digit_char_inj:
  assumes "a < 10" "b < 10" "digit_char a = digit_char b"
  shows "a = b"
proof -
  have "(of_char (digit_char a) :: nat) = of_char (digit_char b)"
    by (rule arg_cong [OF assms(3)])
  then have "48 + a = 48 + b"
    by (simp only: of_char_digit_char [OF assms(1)] of_char_digit_char [OF assms(2)])
  then show ?thesis by simp
qed

lemma digits_nonempty: "digits n \<noteq> []"
  by (subst digits.simps) simp

lemma digits_all_digit: "c \<in> set (digits n) \<Longrightarrow> is_digit c"
proof (induction n arbitrary: c rule: digits.induct)
  case (1 n)
  show ?case
  proof (cases "n < 10")
    case True
    with "1.prems" have "c = digit_char n"
      by (subst (asm) digits.simps) simp
    with True show ?thesis
      by (simp add: is_digit_def of_char_digit_char)
  next
    case False
    with "1.prems" have "c \<in> set (digits (n div 10)) \<or> c = digit_char (n mod 10)"
      by (subst (asm) digits.simps) auto
    then show ?thesis
    proof
      assume "c \<in> set (digits (n div 10))"
      with False "1.IH" show ?thesis by simp
    next
      assume "c = digit_char (n mod 10)"
      then show ?thesis
        by (simp add: is_digit_def of_char_digit_char)
    qed
  qed
qed

lemma hyphen_not_digit: "\<not> is_digit CHR ''-''"
  by (simp add: is_digit_def)

lemma digits_no_hyphen: "CHR ''-'' \<notin> set (digits n)"
  using digits_all_digit hyphen_not_digit by blast

lemma digits_inj: "digits n = digits m \<Longrightarrow> n = m"
proof (induction n arbitrary: m rule: digits.induct)
  case (1 n)
  show ?case
  proof (cases "n < 10")
    case n: True
    show ?thesis
    proof (cases "m < 10")
      case True
      with n "1.prems" have "digit_char n = digit_char m"
        by (subst (asm) (1 2) digits.simps) simp
      with n True show ?thesis by (rule digit_char_inj)
    next
      case False
      with n "1.prems" have "[digit_char n] = digits (m div 10) @ [digit_char (m mod 10)]"
        by (subst (asm) (1 2) digits.simps) simp
      then have "digits (m div 10) = []" by simp
      with digits_nonempty show ?thesis by blast
    qed
  next
    case n: False
    show ?thesis
    proof (cases "m < 10")
      case True
      with n "1.prems" have "digits (n div 10) @ [digit_char (n mod 10)] = [digit_char m]"
        by (subst (asm) (1 2) digits.simps) simp
      then have "digits (n div 10) = []" by simp
      with digits_nonempty show ?thesis by blast
    next
      case False
      with n "1.prems" have "digits (n div 10) @ [digit_char (n mod 10)]
          = digits (m div 10) @ [digit_char (m mod 10)]"
        by (subst (asm) (1 2) digits.simps) simp
      then have a: "digits (n div 10) = digits (m div 10)"
        and b: "digit_char (n mod 10) = digit_char (m mod 10)"
        by simp_all
      from a n "1.IH" have "n div 10 = m div 10" by simp
      moreover from b have "n mod 10 = m mod 10"
        by (intro digit_char_inj) simp_all
      ultimately show ?thesis
        by (metis div_mult_mod_eq)
    qed
  qed
qed

text \<open>Splitting at a separator that one side does not contain.\<close>

lemma split_first:
  "sep \<notin> set xs \<Longrightarrow> sep \<notin> set xs' \<Longrightarrow> xs @ sep # ys = xs' @ sep # ys' \<Longrightarrow> xs = xs' \<and> ys = ys'"
proof (induction xs arbitrary: xs')
  case Nil
  then show ?case by (cases xs') auto
next
  case (Cons a xs)
  then show ?case by (cases xs') auto
qed

lemma split_last:
  assumes "sep \<notin> set ys" "sep \<notin> set ys'" "xs @ sep # ys = xs' @ sep # ys'"
  shows "xs = xs' \<and> ys = ys'"
proof -
  from assms(3) have "rev (xs @ sep # ys) = rev (xs' @ sep # ys')" by simp
  then have "rev ys @ sep # rev xs = rev ys' @ sep # rev xs'" by simp
  with assms(1,2) have "rev ys = rev ys' \<and> rev xs = rev xs'"
    by (intro split_first [of sep]) simp_all
  then show ?thesis by simp
qed

lemma eligibility_key_inj:
  assumes "0 \<le> h" "0 \<le> i" "0 \<le> h'" "0 \<le> i'"
    and "eligibility_key (JInt h) (JInt i) (JStr z) = eligibility_key (JInt h') (JInt i') (JStr z')"
  shows "h = h' \<and> i = i' \<and> z = z'"
proof -
  from assms have "digits (nat h) @ CHR ''-'' # (digits (nat i) @ CHR ''-'' # z)
      = digits (nat h') @ CHR ''-'' # (digits (nat i') @ CHR ''-'' # z')"
    by (simp add: eligibility_key_def show_int_def)
  then have 1: "digits (nat h) = digits (nat h')"
    and "digits (nat i) @ CHR ''-'' # z = digits (nat i') @ CHR ''-'' # z'"
    using split_first [OF digits_no_hyphen digits_no_hyphen] by blast+
  then have 2: "digits (nat i) = digits (nat i')" and 3: "z = z'"
    using split_first [OF digits_no_hyphen digits_no_hyphen] by blast+
  from 1 2 have "nat h = nat h'" "nat i = nat i'"
    by (auto dest: digits_inj)
  with assms(1-4) 3 show ?thesis by (simp add: nat_eq_iff)
qed

lemma recommendations_key_inj:
  assumes "recommendations_key t a b = recommendations_key t' a' b'"
  shows "t = t' \<and> a = a' \<and> b = b'"
proof -
  from assms have "(t @ CHR ''-'' # digits a) @ CHR ''-'' # digits b
      = (t' @ CHR ''-'' # digits a') @ CHR ''-'' # digits b'"
    by (simp add: recommendations_key_def)
  then have 1: "t @ CHR ''-'' # digits a = t' @ CHR ''-'' # digits a'"
    and 2: "digits b = digits b'"
    using split_last [OF digits_no_hyphen digits_no_hyphen] by blast+
  from 1 have "t = t'" "digits a = digits a'"
    using split_last [OF digits_no_hyphen digits_no_hyphen] by blast+
  with 2 show ?thesis by (auto dest: digits_inj)
qed

lemma keys_disjoint: "eligibility_key h i z \<noteq> recommendations_key t a b"
  by (simp add: eligibility_key_def recommendations_key_def)


section \<open>Validation, tiers and the consistency of the cache\<close>

lemma validateInputs_Inr:
  "validateInputs h i z = Inr (hn, inc, zs) \<longleftrightarrow>
     h = JInt hn \<and> i = JInt inc \<and> z = JStr zs \<and> validation_errors h i z = []"
  by (cases h; cases i; cases z) (auto simp: validateInputs_def Let_def)

lemma validation_errors_Nil:
  "validation_errors h i z = [] \<longleftrightarrow>
     \<not> householdSize_invalid h \<and> \<not> annualIncome_invalid i \<and> validateDCZipCode z"
  by (simp add: validation_errors_def)

lemma first_tier_TIER_CONFIG:
  "first_tier income lim TIER_CONFIG =
    (if income \<le> lim then Some MEDICAID_ELIGIBLE
     else if income \<le> lim * 2 then Some LOW_INCOME_GAP
     else if income \<le> lim * 3 then Some MODERATE_INCOME else None)"
  by (simp add: TIER_CONFIG_def MEDICAID_ELIGIBLE_def LOW_INCOME_GAP_def MODERATE_INCOME_def)

lemma limit_lookup:
  assumes "1 \<le> h"
  shows "\<exists>lim. map_of MEDICAID_INCOME_LIMITS (min h 8) = Some lim"
proof -
  from assms have "min h 8 \<in> {1, 2, 3, 4, 5, 6, 7, 8}"
    by (auto simp: min_def)
  then show ?thesis
    by (auto simp: MEDICAID_INCOME_LIMITS_def)
qed

lemma determineTier_spec:
  assumes "map_of MEDICAID_INCOME_LIMITS (min h 8) = Some lim"
  shows "snd (determineTier income h) = Some lim \<and>
    cfg_tier (fst (determineTier income h)) = fst (spec_tier income lim) \<and>
    cfg_budgetRange (fst (determineTier income h)) = snd (spec_tier income lim)"
  using assms
  by (simp add: determineTier_def first_tier_TIER_CONFIG spec_tier_def mult.commute
      MEDICAID_ELIGIBLE_def LOW_INCOME_GAP_def MODERATE_INCOME_def ANY_INCOME_def)

lemma js_trim_zip: "z \<in> set VALID_DC_ZIP_CODES \<Longrightarrow> js_trim z = z"
  using js_trim_surrounded [of "[]" "[]" z] zip_code_ends [of z] by simp

lemma valid_inputs_no_errors:
  assumes "1 \<le> h" "h \<le> 15" "0 \<le> i" "z \<in> set VALID_DC_ZIP_CODES"
  shows "validation_errors (JInt h) (JInt i) (JStr z) = []"
  using assms by (simp add: validation_errors_Nil js_trim_zip)


lemma entry_ok_cache_update [simp]: "entry_ok (st\<lparr>cache := c\<rparr>) k v = entry_ok st k v"
  by (cases v) (simp_all add: entry_ok_def getRelevantResources_def Let_def)

lemma assessEligibility_cases:
  assumes "assessEligibility st now h i z = Inr (r, st')"
  obtains (hit) "cache st (eligibility_key h i z) = Some r" "st' = st"
  | (miss) hn inc zs e where "cache st (eligibility_key h i z) = None"
      "h = JInt hn" "i = JInt inc" "z = JStr zs" "validation_errors h i z = []"
      "r = CEligibility e" "entry_ok st (eligibility_key h i z) (CEligibility e)"
      "householdSize e = hn" "annualIncome e = inc" "zipCode e = zs" "assessedAt e = now"
      "st' = st\<lparr>cache := (cache st)(eligibility_key h i z \<mapsto> r)\<rparr>"
proof (cases "cache st (eligibility_key h i z)")
  case (Some c)
  with assms show ?thesis
    by (intro hit) (simp_all add: assessEligibility_def)
next
  case None
  with assms obtain hn inc zs where v: "validateInputs h i z = Inr (hn, inc, zs)"
    by (auto simp: assessEligibility_def split: sum.splits)
  then have args: "h = JInt hn" "i = JInt inc" "z = JStr zs" "validation_errors h i z = []"
    by (auto simp: validateInputs_Inr)
  obtain cfg lim where d: "determineTier inc hn = (cfg, lim)"
    by (cases "determineTier inc hn")
  define e where "e = \<lparr>tier = cfg_tier cfg, tierName = cfg_name cfg,
     budgetRange = Some (cfg_budgetRange cfg), householdSize = hn, annualIncome = inc,
     zipCode = zs, medicaidLimit = lim,
     resources = getRelevantResources st (cfg_tier cfg), assessedAt = now\<rparr>"
  from assms None v d have r: "r = CEligibility e"
    and st': "st' = st\<lparr>cache := (cache st)(eligibility_key h i z \<mapsto> r)\<rparr>"
    by (auto simp: assessEligibility_def e_def Let_def)
  have "entry_ok st (eligibility_key h i z) (CEligibility e)"
    using args d by (simp add: entry_ok_def e_def)
  with None args r st' show ?thesis
    by (intro miss [of hn inc zs e]) (simp_all add: e_def)
qed

lemma assessEligibility_consistent:
  assumes "cache_consistent st" "assessEligibility st now h i z = Inr (r, st')"
  shows "cache_consistent st'"
  using assms(2)
proof (cases rule: assessEligibility_cases)
  case hit
  with assms(1) show ?thesis by simp
next
  case (miss hn inc zs e)
  with assms(1) show ?thesis
    by (simp add: cache_consistent_def)
qed

lemma getPersonalizedRecommendations_cases:
  assumes "getPersonalizedRecommendations st now arg = Inr (r, st')"
  obtains (hit) elig budgetMin budgetMax where "arg = Some elig"
      "budgetRange elig = Some (budgetMin, budgetMax)"
      "cache st (recommendations_key (tier elig) budgetMin budgetMax) = Some r" "st' = st"
  | (miss) elig budgetMin budgetMax recs where "arg = Some elig"
      "budgetRange elig = Some (budgetMin, budgetMax)"
      "cache st (recommendations_key (tier elig) budgetMin budgetMax) = None"
      "r = CRecommendations recs" "rec_tier recs = tier elig"
      "allRecommendations recs =
         js_sort by_price
           (filter (\<lambda>g. numeric_price g \<ge> budgetMin \<and> numeric_price g \<le> budgetMax)
              (glassesData st))"
      "topRecommendations recs = take 10 (allRecommendations recs)"
      "totalOptions recs = length (allRecommendations recs)"
      "st' = st\<lparr>cache := (cache st)(recommendations_key (tier elig) budgetMin budgetMax \<mapsto> r)\<rparr>"
proof -
  from assms obtain elig where arg: "arg = Some elig"
    by (cases arg) (simp_all add: getPersonalizedRecommendations_def)
  with assms obtain budgetMin budgetMax where b: "budgetRange elig = Some (budgetMin, budgetMax)"
    by (cases "budgetRange elig") (auto simp: getPersonalizedRecommendations_def)
  show ?thesis
  proof (cases "cache st (recommendations_key (tier elig) budgetMin budgetMax)")
    case None
    define items where "items = js_sort by_price
       (filter (\<lambda>g. numeric_price g \<ge> budgetMin \<and> numeric_price g \<le> budgetMax) (glassesData st))"
    define recs where "recs = \<lparr>rec_tier = tier elig, rec_tierName = tierName elig,
       rec_budgetRange = ''$'' @ digits budgetMin @ ''-$'' @ digits budgetMax,
       totalOptions = length items, topRecommendations = take 10 items,
       allRecommendations = items, priorityMessage = getPriorityMessage (tier elig),
       generatedAt = now\<rparr>"
    from assms arg b None have "r = CRecommendations recs"
      and "st' = st\<lparr>cache := (cache st)(recommendations_key (tier elig) budgetMin budgetMax \<mapsto> r)\<rparr>"
      by (auto simp: getPersonalizedRecommendations_def recs_def items_def Let_def)
    with arg b None show ?thesis
      by (intro miss [of elig budgetMin budgetMax recs]) (simp_all add: recs_def items_def)
  next
    case (Some c)
    with assms arg b show ?thesis
      by (intro hit [of elig budgetMin budgetMax]) (simp_all add: getPersonalizedRecommendations_def)
  qed
qed

lemma getPersonalizedRecommendations_consistent:
  assumes "cache_consistent st" "getPersonalizedRecommendations st now arg = Inr (r, st')"
  shows "cache_consistent st'"
  using assms(2)
proof (cases rule: getPersonalizedRecommendations_cases)
  case (hit elig budgetMin budgetMax)
  with assms(1) show ?thesis by simp
next
  case (miss elig budgetMin budgetMax recs)
  then have "entry_ok st (recommendations_key (tier elig) budgetMin budgetMax) r"
    by (auto simp: entry_ok_def)
  with miss assms(1) show ?thesis
    by (simp add: cache_consistent_def)
qed

lemma reachable_consistent: "reachable st \<Longrightarrow> cache_consistent st"
proof (induction rule: reachable.induct)
  case (init cat res)
  show ?case by (simp add: cache_consistent_def fresh_def)
next
  case (assess st now h i z r st')
  then show ?case by (blast intro: assessEligibility_consistent)
next
  case (recommend st now arg r st')
  then show ?case by (blast intro: getPersonalizedRecommendations_consistent)
next
  case (clear st)
  show ?case by (simp add: cache_consistent_def clearCache_def)
qed


lemma show_int_nonneg: "0 \<le> i \<Longrightarrow> show_int i = digits (nat i)"
  by (simp add: show_int_def)

lemma digits_hyphen_clash: "digits n @ xs \<noteq> CHR ''-'' # ys"
proof
  assume a: "digits n @ xs = CHR ''-'' # ys"
  obtain c cs where "digits n = c # cs"
    using digits_nonempty [of n] by (cases "digits n") auto
  with a have "CHR ''-'' \<in> set (digits n)" by simp
  with digits_no_hyphen show False by blast
qed

lemma show_int_split:
  assumes "0 \<le> a" "show_int a @ CHR ''-'' # xs = show_int b @ CHR ''-'' # ys"
  shows "a = b \<and> xs = ys"
proof (cases "0 \<le> b")
  case True
  with assms have "digits (nat a) @ CHR ''-'' # xs = digits (nat b) @ CHR ''-'' # ys"
    by (simp add: show_int_nonneg)
  then have "digits (nat a) = digits (nat b)" "xs = ys"
    using split_first [OF digits_no_hyphen digits_no_hyphen] by blast+
  with assms(1) True show ?thesis
    by (auto dest: digits_inj simp: nat_eq_iff)
next
  case False
  with assms have "digits (nat a) @ CHR ''-'' # xs = CHR ''-'' # (digits (nat (- b)) @ CHR ''-'' # ys)"
    by (simp add: show_int_def)
  with digits_hyphen_clash show ?thesis by blast
qed

lemma eligibility_key_valid_inj:
  assumes "0 \<le> h" "0 \<le> i"
    and "eligibility_key (JInt h) (JInt i) (JStr z) = eligibility_key (JInt h') (JInt i') (JStr z')"
  shows "h = h' \<and> i = i' \<and> z = z'"
proof -
  from assms(3) have "show_int h @ CHR ''-'' # (show_int i @ CHR ''-'' # z)
      = show_int h' @ CHR ''-'' # (show_int i' @ CHR ''-'' # z')"
    by (simp add: eligibility_key_def)
  with assms(1) have 1: "h = h'" and "show_int i @ CHR ''-'' # z = show_int i' @ CHR ''-'' # z'"
    using show_int_split by blast+
  with assms(2) have "i = i'" "z = z'"
    using show_int_split by blast+
  with 1 show ?thesis by simp
qed

text \<open>An eligibility entry of a consistent cache belongs to the request that finds it.\<close>

lemma consistent_hit:
  assumes "cache_consistent st" "cache st (eligibility_key (JInt h) (JInt i) (JStr z)) = Some v"
  obtains e where "v = CEligibility e" "householdSize e = h" "annualIncome e = i" "zipCode e = z"
    "entry_ok st (eligibility_key (JInt h) (JInt i) (JStr z)) (CEligibility e)"
proof -
  from assms have ok: "entry_ok st (eligibility_key (JInt h) (JInt i) (JStr z)) v"
    by (simp add: cache_consistent_def)
  show ?thesis
  proof (cases v)
    case (CRecommendations r)
    with ok show ?thesis
      by (auto simp: entry_ok_def keys_disjoint)
  next
    case (CEligibility e)
    with ok have k: "eligibility_key (JInt h) (JInt i) (JStr z)
        = eligibility_key (JInt (householdSize e)) (JInt (annualIncome e)) (JStr (zipCode e))"
      and v: "validation_errors (JInt (householdSize e)) (JInt (annualIncome e)) (JStr (zipCode e)) = []"
      by (simp_all add: entry_ok_def)
    from v have "0 \<le> householdSize e" "0 \<le> annualIncome e"
      by (simp_all add: validation_errors_Nil)
    with k have "householdSize e = h \<and> annualIncome e = i \<and> zipCode e = z"
      using eligibility_key_valid_inj [of "householdSize e" "annualIncome e" "zipCode e" h i z]
      by simp
    with CEligibility ok show ?thesis
      by (intro that [of e]) simp_all
  qed
qed

text \<open>On inputs that pass validation the call returns, from the cache or not, what is computed for them.\<close>

lemma assessEligibility_valid:
  assumes "cache_consistent st" "validation_errors (JInt h) (JInt i) (JStr z) = []"
  obtains e st' where
    "assessEligibility st now (JInt h) (JInt i) (JStr z) = Inr (CEligibility e, st')"
    "householdSize e = h" "annualIncome e = i" "zipCode e = z"
    "entry_ok st (eligibility_key (JInt h) (JInt i) (JStr z)) (CEligibility e)"
    "dcResources st' = dcResources st" "glassesData st' = glassesData st"
    "cache st' (eligibility_key (JInt h) (JInt i) (JStr z)) = Some (CEligibility e)"
proof (cases "cache st (eligibility_key (JInt h) (JInt i) (JStr z))")
  case (Some v)
  with assms(1) obtain e where e: "v = CEligibility e" "householdSize e = h" "annualIncome e = i"
    "zipCode e = z" "entry_ok st (eligibility_key (JInt h) (JInt i) (JStr z)) (CEligibility e)"
    by (rule consistent_hit)
  from Some have "assessEligibility st now (JInt h) (JInt i) (JStr z) = Inr (v, st)"
    by (simp add: assessEligibility_def)
  with e Some show ?thesis
    by (intro that [of e st]) simp_all
next
  case None
  from assms(2) have v: "validateInputs (JInt h) (JInt i) (JStr z) = Inr (h, i, z)"
    by (simp add: validateInputs_Inr)
  obtain r st' where r: "assessEligibility st now (JInt h) (JInt i) (JStr z) = Inr (r, st')"
    using None v by (cases "determineTier i h") (auto simp: assessEligibility_def Let_def)
  then show ?thesis
  proof (cases rule: assessEligibility_cases)
    case hit
    with None show ?thesis by simp
  next
    case (miss hn inc zs e)
    with r show ?thesis
      by (intro that [of e st']) simp_all
  qed
qed

section \<open>Properties\<close>

text \<open>
  C10. \<open>validateDCZipCode\<close> is total and tolerant of white space: every value that is not
  a string gives \<open>false\<close>; a string gives \<open>true\<close> exactly when its trimmed form is one of
  the 40 zip codes of the allow-list, that is, exactly when the string is an allow-listed
  zip code surrounded by any amount of white space.
\<close>

theorem validateDCZipCode_total_trim:
  "(\<not> is_string v \<longrightarrow> validateDCZipCode v = False) \<and>
   (validateDCZipCode (JStr s) \<longleftrightarrow> js_trim s \<in> set VALID_DC_ZIP_CODES) \<and>
   (validateDCZipCode (JStr s) \<longleftrightarrow>
      (\<exists>l z r. s = l @ z @ r \<and> (\<forall>c\<in>set l. is_js_whitespace c) \<and>
         (\<forall>c\<in>set r. is_js_whitespace c) \<and> z \<in> set VALID_DC_ZIP_CODES)) \<and>
   length VALID_DC_ZIP_CODES = 40 \<and> distinct VALID_DC_ZIP_CODES"
proof (intro conjI)
  show "\<not> is_string v \<longrightarrow> validateDCZipCode v = False"
    by (cases v) simp_all
  show "validateDCZipCode (JStr s) \<longleftrightarrow> js_trim s \<in> set VALID_DC_ZIP_CODES"
    by simp
  show "validateDCZipCode (JStr s) \<longleftrightarrow>
      (\<exists>l z r. s = l @ z @ r \<and> (\<forall>c\<in>set l. is_js_whitespace c) \<and>
         (\<forall>c\<in>set r. is_js_whitespace c) \<and> z \<in> set VALID_DC_ZIP_CODES)"
  proof
    assume "validateDCZipCode (JStr s)"
    then have "js_trim s \<in> set VALID_DC_ZIP_CODES" by simp
    with js_trim_decomp [of s] show "\<exists>l z r. s = l @ z @ r \<and> (\<forall>c\<in>set l. is_js_whitespace c) \<and>
         (\<forall>c\<in>set r. is_js_whitespace c) \<and> z \<in> set VALID_DC_ZIP_CODES"
      by blast
  next
    assume "\<exists>l z r. s = l @ z @ r \<and> (\<forall>c\<in>set l. is_js_whitespace c) \<and>
         (\<forall>c\<in>set r. is_js_whitespace c) \<and> z \<in> set VALID_DC_ZIP_CODES"
    then obtain l z r where s: "s = l @ z @ r" and l: "\<forall>c\<in>set l. is_js_whitespace c"
      and r: "\<forall>c\<in>set r. is_js_whitespace c" and z: "z \<in> set VALID_DC_ZIP_CODES"
      by blast
    from zip_code_ends [OF z] have "js_trim (l @ z @ r) = z"
      using l r by (intro js_trim_surrounded) auto
    with s z show "validateDCZipCode (JStr s)" by simp
  qed
  show "length VALID_DC_ZIP_CODES = 40"
    by (simp add: VALID_DC_ZIP_CODES_def)
  show "distinct VALID_DC_ZIP_CODES"
    by (simp add: VALID_DC_ZIP_CODES_def)
qed

theorem validateDCZipCode_total_trim_witness:
  "validateDCZipCode (JInt 20001) = False \<and> validateDCZipCode (JStr '' 20001  '') \<and>
   \<not> validateDCZipCode (JStr ''99999'')"
proof -
  have a: "\<not> is_string (JInt 20001)" by simp
  have b: "js_trim '' 20001  '' \<in> set VALID_DC_ZIP_CODES"
    by (simp add: js_trim_def is_js_whitespace_def VALID_DC_ZIP_CODES_def)
  have c: "js_trim ''99999'' \<notin> set VALID_DC_ZIP_CODES"
    by (simp add: js_trim_def is_js_whitespace_def VALID_DC_ZIP_CODES_def)
  show ?thesis
    using validateDCZipCode_total_trim [of "JInt 20001" "'' 20001  ''"]
      validateDCZipCode_total_trim [of "JInt 20001" "''99999''"] a b c
    by blast
qed

lemma valid_determineTier:
  assumes "validation_errors (JInt h) (JInt i) (JStr z) = []"
  obtains lim where "map_of MEDICAID_INCOME_LIMITS (min h 8) = Some lim"
    "snd (determineTier i h) = Some lim"
    "cfg_tier (fst (determineTier i h)) = fst (spec_tier i lim)"
    "cfg_budgetRange (fst (determineTier i h)) = snd (spec_tier i lim)"
proof -
  from assms have "1 \<le> h" by (simp add: validation_errors_Nil)
  then obtain lim where "map_of MEDICAID_INCOME_LIMITS (min h 8) = Some lim"
    using limit_lookup by blast
  with determineTier_spec [of h lim i] show ?thesis
    by (intro that [of lim]) simp_all
qed

lemma spec_tier_mono:
  "i1 \<le> i2 \<Longrightarrow> tier_rank (fst (spec_tier i1 lim)) \<le> tier_rank (fst (spec_tier i2 lim))"
  by (simp add: spec_tier_def tier_rank_def)

lemma assessEligibility_valid_spec:
  assumes "reachable st" "1 \<le> h" "h \<le> 15" "0 \<le> i" "z \<in> set VALID_DC_ZIP_CODES"
  obtains e st' lim where
    "assessEligibility st now (JInt h) (JInt i) (JStr z) = Inr (CEligibility e, st')"
    "map_of MEDICAID_INCOME_LIMITS (min h 8) = Some lim" "medicaidLimit e = Some lim"
    "tier e = fst (spec_tier i lim)" "budgetRange e = Some (snd (spec_tier i lim))"
    "resources e = getRelevantResources st (tier e)"
proof -
  from assms(1) have c: "cache_consistent st" by (rule reachable_consistent)
  from assms(2-5) have v: "validation_errors (JInt h) (JInt i) (JStr z) = []"
    by (rule valid_inputs_no_errors)
  from c v obtain e st' where
    r: "assessEligibility st now (JInt h) (JInt i) (JStr z) = Inr (CEligibility e, st')"
    and e: "householdSize e = h" "annualIncome e = i"
    and ok: "entry_ok st (eligibility_key (JInt h) (JInt i) (JStr z)) (CEligibility e)"
    by (rule assessEligibility_valid)
  from v obtain lim where lim: "map_of MEDICAID_INCOME_LIMITS (min h 8) = Some lim"
    "snd (determineTier i h) = Some lim"
    "cfg_tier (fst (determineTier i h)) = fst (spec_tier i lim)"
    "cfg_budgetRange (fst (determineTier i h)) = snd (spec_tier i lim)"
    by (rule valid_determineTier)
  from ok e lim have "medicaidLimit e = Some lim" "tier e = fst (spec_tier i lim)"
    "budgetRange e = Some (snd (spec_tier i lim))" "resources e = getRelevantResources st (tier e)"
    by (simp_all add: entry_ok_def)
  with r lim(1) show ?thesis
    by (intro that [of e st' lim])
qed




text \<open>
  C4. The tier is monotone in the income: for a fixed valid household size and zip code
  and valid incomes \<open>i1 \<le> i2\<close>, assessed in any two reachable states, the tier for \<open>i2\<close>
  is not below the tier for \<open>i1\<close> in the order medicaid, gap, moderate, any.
\<close>

theorem tier_monotone_in_income:
  assumes "reachable st1" "reachable st2" "1 \<le> h" "h \<le> 15" "0 \<le> i1" "i1 \<le> i2"
    "z \<in> set VALID_DC_ZIP_CODES"
  shows "\<exists>e1 st1' e2 st2'.
    assessEligibility st1 now1 (JInt h) (JInt i1) (JStr z) = Inr (CEligibility e1, st1') \<and>
    assessEligibility st2 now2 (JInt h) (JInt i2) (JStr z) = Inr (CEligibility e2, st2') \<and>
    tier_rank (tier e1) \<le> tier_rank (tier e2)"
proof -
  from assms have i2: "0 \<le> i2" by simp
  from assms(1,3,4,5,7) obtain e1 st1' lim1 where 1:
    "assessEligibility st1 now1 (JInt h) (JInt i1) (JStr z) = Inr (CEligibility e1, st1')"
    "map_of MEDICAID_INCOME_LIMITS (min h 8) = Some lim1" "tier e1 = fst (spec_tier i1 lim1)"
    by (rule assessEligibility_valid_spec)
  from assms(2,3,4) i2 assms(7) obtain e2 st2' lim2 where 2:
    "assessEligibility st2 now2 (JInt h) (JInt i2) (JStr z) = Inr (CEligibility e2, st2')"
    "map_of MEDICAID_INCOME_LIMITS (min h 8) = Some lim2" "tier e2 = fst (spec_tier i2 lim2)"
    by (rule assessEligibility_valid_spec)
  from 1(2) 2(2) have "lim1 = lim2" by simp
  with 1(3) 2(3) assms(6) have "tier_rank (tier e1) \<le> tier_rank (tier e2)"
    by (simp add: spec_tier_mono)
  with 1(1) 2(1) show ?thesis by blast
qed

theorem tier_monotone_in_income_witness:
  "\<exists>e1 st1' e2 st2'.
    assessEligibility (fresh [] initializeDCResources) ''2025-01-01T00:00:00.000Z''
      (JInt 4) (JInt 43056) (JStr ''20001'') = Inr (CEligibility e1, st1') \<and>
    assessEligibility (fresh [] initializeDCResources) ''2025-01-01T00:00:01.000Z''
      (JInt 4) (JInt 43057) (JStr ''20001'') = Inr (CEligibility e2, st2') \<and>
    tier_rank (tier e1) \<le> tier_rank (tier e2)"
proof -
  have z: "''20001'' \<in> set VALID_DC_ZIP_CODES"
    by (simp add: VALID_DC_ZIP_CODES_def)
  show ?thesis
    using tier_monotone_in_income [OF reachable.init reachable.init, of 4 43056 43057 "''20001''"
      "[]" initializeDCResources "''2025-01-01T00:00:00.000Z''" "[]" initializeDCResources
      "''2025-01-01T00:00:01.000Z''"] z
    by simp
qed



lemma price_sample_item [simp]: "numeric_price (sample_item n p) = p"
  by (simp add: sample_item_def)







lemma consistent_recommendations_hit:
  assumes "cache_consistent st" "cache st (recommendations_key t budgetMin budgetMax) = Some v"
  obtains recs where "v = CRecommendations recs"
    "allRecommendations recs =
       js_sort by_price
         (filter (\<lambda>g. numeric_price g \<ge> budgetMin \<and> numeric_price g \<le> budgetMax) (glassesData st))"
    "topRecommendations recs = take 10 (allRecommendations recs)"
    "totalOptions recs = length (allRecommendations recs)"
proof -
  from assms have ok: "entry_ok st (recommendations_key t budgetMin budgetMax) v"
    by (simp add: cache_consistent_def)
  show ?thesis
  proof (cases v)
    case (CEligibility e)
    with ok have "recommendations_key t budgetMin budgetMax
        = eligibility_key (JInt (householdSize e)) (JInt (annualIncome e)) (JStr (zipCode e))"
      by (simp add: entry_ok_def)
    with keys_disjoint show ?thesis by metis
  next
    case (CRecommendations recs)
    with ok obtain a b where k: "recommendations_key t budgetMin budgetMax
        = recommendations_key (rec_tier recs) a b"
      and r: "allRecommendations recs =
         js_sort by_price (filter (\<lambda>g. numeric_price g \<ge> a \<and> numeric_price g \<le> b) (glassesData st))"
        "topRecommendations recs = take 10 (allRecommendations recs)"
        "totalOptions recs = length (allRecommendations recs)"
      by (auto simp: entry_ok_def)
    from k have "a = budgetMin" "b = budgetMax"
      using recommendations_key_inj by blast+
    with r CRecommendations show ?thesis
      by (intro that [of recs]) simp_all
  qed
qed

lemma getPersonalizedRecommendations_present:
  assumes "cache_consistent st" "budgetRange elig = Some (budgetMin, budgetMax)"
  obtains recs st' where
    "getPersonalizedRecommendations st now (Some elig) = Inr (CRecommendations recs, st')"
    "allRecommendations recs =
       js_sort by_price
         (filter (\<lambda>g. numeric_price g \<ge> budgetMin \<and> numeric_price g \<le> budgetMax) (glassesData st))"
    "topRecommendations recs = take 10 (allRecommendations recs)"
    "totalOptions recs = length (allRecommendations recs)"
proof (cases "cache st (recommendations_key (tier elig) budgetMin budgetMax)")
  case (Some v)
  with assms(1) obtain recs where "v = CRecommendations recs"
    "allRecommendations recs =
       js_sort by_price
         (filter (\<lambda>g. numeric_price g \<ge> budgetMin \<and> numeric_price g \<le> budgetMax) (glassesData st))"
    "topRecommendations recs = take 10 (allRecommendations recs)"
    "totalOptions recs = length (allRecommendations recs)"
    by (rule consistent_recommendations_hit)
  moreover from Some assms(2)
  have "getPersonalizedRecommendations st now (Some elig) = Inr (v, st)"
    by (simp add: getPersonalizedRecommendations_def)
  ultimately show ?thesis
    by (intro that [of recs st]) simp_all
next
  case None
  with assms(2) obtain r st' where
    r: "getPersonalizedRecommendations st now (Some elig) = Inr (r, st')"
    by (simp add: getPersonalizedRecommendations_def Let_def)
  then show ?thesis
  proof (cases rule: getPersonalizedRecommendations_cases)
    case (hit e a b)
    with None assms(2) show ?thesis by simp
  next
    case (miss e a b recs)
    with r assms(2) show ?thesis
      by (intro that [of recs st']) simp_all
  qed
qed









lemma js_sort_Nil [simp]: "js_sort cmp [] = []"
  by (simp add: js_sort_def)

lemma js_sort_empty_range:
  assumes "budgetMax < budgetMin"
  shows "js_sort by_price
    (filter (\<lambda>g. numeric_price g \<ge> budgetMin \<and> numeric_price g \<le> budgetMax) xs) = []"
proof -
  from assms have "filter (\<lambda>g. numeric_price g \<ge> budgetMin \<and> numeric_price g \<le> budgetMax) xs = []"
    by (auto simp: filter_empty_conv)
  then show ?thesis
    by (simp add: js_sort_def)
qed

text \<open>
  A budget range that is there but has \<open>min > max\<close> is not rejected: in every reachable
  state the call returns a result with no items.
\<close>

lemma recommendations_reversed_range:
  assumes "reachable st" "budgetRange elig = Some (budgetMin, budgetMax)" "budgetMax < budgetMin"
  shows "\<exists>recs st'. getPersonalizedRecommendations st now (Some elig) = Inr (CRecommendations recs, st') \<and>
    allRecommendations recs = [] \<and> topRecommendations recs = [] \<and> totalOptions recs = 0"
proof -
  from assms(1) have "cache_consistent st" by (rule reachable_consistent)
  from this assms(2) obtain recs st' where
    "getPersonalizedRecommendations st now (Some elig) = Inr (CRecommendations recs, st')"
    "allRecommendations recs =
       js_sort by_price
         (filter (\<lambda>g. numeric_price g \<ge> budgetMin \<and> numeric_price g \<le> budgetMax) (glassesData st))"
    "topRecommendations recs = take 10 (allRecommendations recs)"
    "totalOptions recs = length (allRecommendations recs)"
    by (rule getPersonalizedRecommendations_present)
  with assms(3) show ?thesis
    by (simp add: js_sort_empty_range)
qed

text \<open>
  C6, as the code has it. When the eligibility argument is absent or has no \<open>budgetRange\<close>,
  \<open>getPersonalizedRecommendations\<close> throws a plain \<open>Error\<close> with the message
  \<open>Invalid eligibility data provided\<close>; there is no result and the state stays as it was.
\<close>

theorem recommendations_invalid_eligibility:
  assumes "arg = None \<or> (\<exists>elig. arg = Some elig \<and> budgetRange elig = None)"
  shows "getPersonalizedRecommendations st now arg =
    Inl (Thrown Error ''Invalid eligibility data provided'')"
  using assms by (auto simp: getPersonalizedRecommendations_def invalid_eligibility_def)

theorem recommendations_invalid_eligibility_witness:
  "getPersonalizedRecommendations (fresh sample_catalog initializeDCResources)
     ''2025-01-01T00:00:00.000Z'' (Some (sample_request ''moderate_income'' None)) =
     Inl (Thrown Error ''Invalid eligibility data provided'') \<and>
   getPersonalizedRecommendations (fresh sample_catalog initializeDCResources)
     ''2025-01-01T00:00:00.000Z'' None = Inl (Thrown Error ''Invalid eligibility data provided'')"
proof -
  have "budgetRange (sample_request ''moderate_income'' None) = None"
    by (simp add: sample_request_def)
  then have c: "Some (sample_request ''moderate_income'' None) = None \<or>
      (\<exists>elig. Some (sample_request ''moderate_income'' None) = Some elig \<and> budgetRange elig = None)"
    by simp
  have d: "(None :: eligibility option) = None \<or>
      (\<exists>elig. None = Some elig \<and> budgetRange elig = None)"
    by simp
  from recommendations_invalid_eligibility [OF c] recommendations_invalid_eligibility [OF d]
  show ?thesis by simp
qed

text \<open>
  C6 as stated fails. Without a \<open>budgetRange\<close> the call throws an \<open>Error\<close>, not a
  \<open>ServiceError\<close>; with the budget range \<open>[100, 50]\<close> the call on the fresh service does not
  fail: it returns a result with no items and caches it.
\<close>

theorem service_error_counterexample:
  "getPersonalizedRecommendations (fresh sample_catalog initializeDCResources)
     ''2025-01-01T00:00:00.000Z'' (Some (sample_request ''moderate_income'' None)) =
     Inl (Thrown Error ''Invalid eligibility data provided'') \<and>
   Error \<noteq> ServiceError \<and>
   fst (projr (getPersonalizedRecommendations (fresh sample_catalog initializeDCResources)
      ''2025-01-01T00:00:00.000Z'' (Some (sample_request ''moderate_income'' (Some (100, 50)))))) =
     CRecommendations \<lparr>rec_tier = ''moderate_income'', rec_tierName = ''moderate_income'',
       rec_budgetRange = ''$100-$50'', totalOptions = 0, topRecommendations = [],
       allRecommendations = [],
       priorityMessage = '' You have moderate income flexibility - focus on value and quality.'',
       generatedAt = ''2025-01-01T00:00:00.000Z''\<rparr> \<and>
   \<not> isl (getPersonalizedRecommendations (fresh sample_catalog initializeDCResources)
      ''2025-01-01T00:00:00.000Z'' (Some (sample_request ''moderate_income'' (Some (100, 50)))))"
proof -
  have e: "js_sort by_price
      (filter (\<lambda>g. numeric_price g \<ge> 100 \<and> numeric_price g \<le> 50) sample_catalog) = []"
    by (rule js_sort_empty_range) simp
  have m: "getPriorityMessage ''moderate_income'' =
      '' You have moderate income flexibility - focus on value and quality.''"
    by (simp add: getPriorityMessage_def priority_messages_def or_else_def)
  have d: "digits 100 = ''100''" "digits 50 = ''50''"
    by (simp_all add: digits.simps digit_char_def)
  show ?thesis
    by (simp add: getPersonalizedRecommendations_def invalid_eligibility_def fresh_def
        sample_request_def Let_def e m d)
qed























lemma alloc_eq:
  "alloc h v fr = (r, h') \<longleftrightarrow>
     r = next_addr h \<and> h' = h\<lparr>cells := (cells h)(next_addr h \<mapsto> (v, fr)), next_addr := Suc (next_addr h)\<rparr>"
  by (auto simp: alloc_def)

lemma map_filter_cong_set:
  "\<forall>x\<in>set xs. f x = g x \<Longrightarrow> List.map_filter f xs = List.map_filter g xs"
  by (induction xs) (auto simp: map_filter_simps split: option.splits)

lemma catalog_of_cong:
  assumes "cells h' d = cells h d" "\<forall>a\<in>set (elements h d). cells h' a = cells h a"
  shows "catalog_of h' d = catalog_of h d"
proof -
  from assms(1) have e: "elements h' d = elements h d"
    by (simp add: elements_def)
  from assms(2) have "\<forall>a\<in>set (elements h d). item_at h' a = item_at h a"
    by (simp add: item_at_def)
  then have "List.map_filter (item_at h') (elements h d) = List.map_filter (item_at h) (elements h d)"
    by (rule map_filter_cong_set)
  with e show ?thesis
    by (simp add: catalog_of_def)
qed

lemma sealed_elements:
  assumes "sealed h d" "a \<in> set (elements h d)"
  shows "\<exists>g. cells h a = Some (Item g, True)"
  using assms by (auto simp: sealed_def elements_def)

lemma sealed_allocated: "sealed h d \<Longrightarrow> cells h d \<noteq> None \<and> d < next_addr h"
  by (auto simp: sealed_def) (metis not_le_imp_less option.distinct(1))

text \<open>A new object leaves the catalog as it is.\<close>

lemma sealed_alloc:
  assumes "sealed h d" "alloc h v fr = (r, h')"
  shows "sealed h' d" "cells h' d = cells h d" "catalog_of h' d = catalog_of h d" "r \<noteq> d"
    "cells h r = None" "cells h' r = Some (v, fr)" "elements h' d = elements h d"
    "\<forall>a. cells h a \<noteq> None \<longrightarrow> cells h' a = cells h a"
proof -
  from assms(2) have r: "r = next_addr h"
    and h': "h' = h\<lparr>cells := (cells h)(next_addr h \<mapsto> (v, fr)), next_addr := Suc (next_addr h)\<rparr>"
    by (simp_all add: alloc_eq)
  from assms(1) have free: "cells h (next_addr h) = None"
    by (simp add: sealed_def)
  from assms(1) have d: "cells h d \<noteq> None" "d < next_addr h"
    by (simp_all add: sealed_allocated)
  show "r \<noteq> d" using r d by simp
  show "cells h r = None" using r free by simp
  show "cells h' r = Some (v, fr)" using r h' by simp
  show keep: "\<forall>a. cells h a \<noteq> None \<longrightarrow> cells h' a = cells h a"
    using h' free by auto
  show same: "cells h' d = cells h d"
    using keep d by simp
  then show "elements h' d = elements h d"
    by (simp add: elements_def)
  have items: "\<forall>a\<in>set (elements h d). cells h' a = cells h a"
    using keep sealed_elements [OF assms(1)] by fastforce
  with same show "catalog_of h' d = catalog_of h d"
    by (rule catalog_of_cong)
  show "sealed h' d"
    unfolding sealed_def
  proof (intro conjI allI impI)
    fix a assume "next_addr h' \<le> a"
    with h' have "next_addr h < a" by simp
    with assms(1) h' show "cells h' a = None"
      by (simp add: sealed_def)
  next
    from assms(1) obtain as fr' where as: "cells h d = Some (Array as, fr')"
      "\<forall>a\<in>set as. \<exists>g. cells h a = Some (Item g, True)"
      by (auto simp: sealed_def)
    with keep have "\<forall>a\<in>set as. \<exists>g. cells h' a = Some (Item g, True)"
      by fastforce
    with as(1) same show "\<exists>as fr. cells h' d = Some (Array as, fr) \<and>
        (\<forall>a\<in>set as. \<exists>g. cells h' a = Some (Item g, True))"
      by auto
  qed
qed

text \<open>A write by a caller to any object but \<open>_glassesData\<close> itself fails or leaves the catalog as it is.\<close>

lemma sealed_client_write:
  assumes "sealed h d" "a \<noteq> d" "client_write h a v = Inr h'"
  shows "sealed h' d \<and> cells h' d = cells h d \<and> catalog_of h' d = catalog_of h d"
proof -
  from assms(3) obtain old where old: "cells h a = Some (old, False)"
    and h': "h' = h\<lparr>cells := (cells h)(a \<mapsto> (v, False))\<rparr>"
    by (auto simp: client_write_def split: option.splits if_splits)
  from old sealed_elements [OF assms(1)] have na: "a \<notin> set (elements h d)"
    by fastforce
  from h' assms(2) have same: "cells h' d = cells h d" by simp
  from h' na have items: "\<forall>x\<in>set (elements h d). cells h' x = cells h x" by auto
  from same items have cat: "catalog_of h' d = catalog_of h d"
    by (rule catalog_of_cong)
  have "sealed h' d"
    unfolding sealed_def
  proof (intro conjI allI impI)
    fix x assume x: "next_addr h' \<le> x"
    with assms(1) h' have "cells h x = None"
      by (simp add: sealed_def)
    with old h' show "cells h' x = None" by auto
  next
    from assms(1) obtain as fr' where as: "cells h d = Some (Array as, fr')"
      "\<forall>x\<in>set as. \<exists>g. cells h x = Some (Item g, True)"
      by (auto simp: sealed_def)
    then have "set as = set (elements h d)"
      by (simp add: elements_def)
    with items as(2) have "\<forall>x\<in>set as. \<exists>g. cells h' x = Some (Item g, True)"
      by simp
    with as(1) same show "\<exists>as fr. cells h' d = Some (Array as, fr) \<and>
        (\<forall>a\<in>set as. \<exists>g. cells h' a = Some (Item g, True))"
      by auto
  qed
  with same cat show ?thesis by simp
qed

lemma handed_out_alloc:
  assumes "sealed h d" "alloc h (Array as) fr = (r, h')" "set as \<subseteq> set (elements h d)"
  shows "handed_out h d r h'"
proof -
  note a = sealed_alloc [OF assms(1,2)]
  have e: "elements h' r = as"
    using a(6) by (simp add: elements_def)
  have "\<forall>x\<in>insert r (set (elements h' r)). x \<noteq> d"
  proof
    fix x assume "x \<in> insert r (set (elements h' r))"
    then consider "x = r" | "x \<in> set (elements h d)"
      using e assms(3) by auto
    then show "x \<noteq> d"
    proof cases
      case 1
      with a(4) show ?thesis by simp
    next
      case 2
      with sealed_elements [OF assms(1)] obtain g where "cells h x = Some (Item g, True)"
        by blast
      moreover from assms(1) obtain bs fr' where "cells h d = Some (Array bs, fr')"
        by (auto simp: sealed_def)
      ultimately show ?thesis by auto
    qed
  qed
  then have w: "\<forall>x\<in>insert r (set (elements h' r)). \<forall>v h''. client_write h' x v = Inr h'' \<longrightarrow>
        sealed h'' d \<and> cells h'' d = cells h' d \<and> catalog_of h'' d = catalog_of h' d"
    using sealed_client_write [OF a(1)] by blast
  from assms(3) e have sub: "set (elements h' r) \<subseteq> set (elements h d)"
    by simp
  show ?thesis
    unfolding handed_out_def
    using a(1) a(2) a(3) a(4) a(5) sub w by (intro conjI)
qed

lemma set_insert_by: "set (insert_by cmp x ys) = insert x (set ys)"
  by (induction ys) auto

lemma set_js_sort: "set (js_sort cmp xs) = set xs"
  by (induction xs) (simp_all add: js_sort_def set_insert_by)

lemma writes_safe:
  assumes "sealed h d" "r \<noteq> d" "set (elements h r) \<subseteq> set (elements h d)"
  shows "\<forall>x\<in>insert r (set (elements h r)). \<forall>v h''. client_write h x v = Inr h'' \<longrightarrow>
    sealed h'' d \<and> cells h'' d = cells h d \<and> catalog_of h'' d = catalog_of h d"
proof -
  have "x \<noteq> d" if "x \<in> insert r (set (elements h r))" for x
  proof (cases "x = r")
    case True
    with assms(2) show ?thesis by simp
  next
    case False
    with that assms(3) have "x \<in> set (elements h d)" by auto
    with sealed_elements [OF assms(1)] obtain g where "cells h x = Some (Item g, True)"
      by blast
    moreover from assms(1) obtain bs fr' where "cells h d = Some (Array bs, fr')"
      by (auto simp: sealed_def)
    ultimately show ?thesis by auto
  qed
  then show ?thesis
    using sealed_client_write [OF assms(1)] by blast
qed

lemma getAllGlasses_copy:
  assumes "sealed h d" "getAllGlasses h d = (r, h')"
  shows "handed_out h d r h'" "catalog_of h' r = catalog_of h d"
proof -
  from assms(2) have al: "alloc h (Array (elements h d)) False = (r, h')"
    by (simp add: getAllGlasses_def)
  with assms(1) show "handed_out h d r h'"
    by (rule handed_out_alloc) simp
  note a = sealed_alloc [OF assms(1) al]
  have "cells h' r = Some (Array (elements h' d), False)"
    using a(6) a(7) by simp
  then have "elements h' r = elements h' d"
    by (simp add: elements_def)
  then have "catalog_of h' r = catalog_of h' d"
    by (simp add: catalog_of_def)
  with a(3) show "catalog_of h' r = catalog_of h d" by simp
qed

lemma getGlassesByPriceRange_fresh:
  assumes "sealed h d" "getGlassesByPriceRange h d lo hi = Inr (r, h')"
  shows "handed_out h d r h'"
proof -
  from assms(2) have "alloc h
       (Array (filter (\<lambda>a. int (price_at h a) \<ge> lo \<and> int (price_at h a) \<le> hi) (elements h d)))
       False = (r, h')"
    by (simp add: getGlassesByPriceRange_def split: if_splits)
  with assms(1) show ?thesis
    by (rule handed_out_alloc) simp
qed

lemma getGlassesByFrameStyle_fresh:
  assumes "sealed h d" "getGlassesByFrameStyle h d fs = Inr (r, h')"
  shows "handed_out h d r h'"
proof (cases "fs = JStr ''all''")
  case True
  with assms(2) have "getAllGlasses h d = (r, h')"
    by (simp add: getGlassesByFrameStyle_def)
  with assms(1) show ?thesis by (rule getAllGlasses_copy)
next
  case False
  with assms(2) obtain s where "alloc h
       (Array (filter (\<lambda>a. toLowerCase (style_at h a) = toLowerCase s) (elements h d))) False = (r, h')"
    by (cases fs) (simp_all add: getGlassesByFrameStyle_def)
  with assms(1) show ?thesis
    by (rule handed_out_alloc) simp
qed

lemma recommendation_arrays_frozen:
  assumes "sealed h d" "recommendation_arrays h d lo hi = ((topRecs, allRecs), h')"
  shows "sealed h' d" "cells h' d = cells h d" "catalog_of h' d = catalog_of h d"
    "topRecs \<noteq> d" "allRecs \<noteq> d" "cells h topRecs = None" "cells h allRecs = None"
    "\<exists>as. cells h' topRecs = Some (Array as, True) \<and> set as \<subseteq> set (elements h d)"
    "\<exists>as. cells h' allRecs = Some (Array as, True) \<and> set as \<subseteq> set (elements h d)"
proof -
  define flt where "flt = filter (\<lambda>a. price_at h a \<ge> lo \<and> price_at h a \<le> hi) (elements h d)"
  obtain tmp h1 where al1: "alloc h (Array flt) False = (tmp, h1)"
    by (cases "alloc h (Array flt) False")
  note a1 = sealed_alloc [OF assms(1) al1]
  define srt where "srt = js_sort (\<lambda>a b. int (price_at h1 a) - int (price_at h1 b)) (elements h1 tmp)"
  define h2 where "h2 = h1\<lparr>cells := (cells h1)(tmp \<mapsto> (Array srt, False))\<rparr>"
  have e1: "elements h1 tmp = flt"
    using a1(6) by (simp add: elements_def)
  have srt: "set srt \<subseteq> set (elements h d)"
    by (auto simp: srt_def e1 set_js_sort flt_def)
  have w: "client_write h1 tmp (Array srt) = Inr h2"
    using a1(6) by (simp add: client_write_def h2_def)
  from sealed_client_write [OF a1(1) a1(4) w]
  have s2: "sealed h2 d" "cells h2 d = cells h1 d" "catalog_of h2 d = catalog_of h1 d"
    by simp_all
  have e2: "elements h2 tmp = srt"
    by (simp add: elements_def h2_def)
  obtain t h3 where al3: "alloc h2 (Array (take 10 (elements h2 tmp))) True = (t, h3)"
    by (cases "alloc h2 (Array (take 10 (elements h2 tmp))) True")
  note a3 = sealed_alloc [OF s2(1) al3]
  have e3: "elements h3 tmp = srt"
  proof -
    have "cells h2 tmp \<noteq> None" by (simp add: h2_def)
    with a3(8) have "cells h3 tmp = cells h2 tmp" by simp
    with e2 show ?thesis by (simp add: elements_def)
  qed
  obtain l h4 where al4: "alloc h3 (Array (elements h3 tmp)) True = (l, h4)"
    by (cases "alloc h3 (Array (elements h3 tmp)) True")
  note a4 = sealed_alloc [OF a3(1) al4]
  from assms(2) al1 al3 al4 have res: "topRecs = t" "allRecs = l" "h' = h4"
    by (simp_all add: recommendation_arrays_def flt_def srt_def h2_def Let_def)
  show "sealed h' d" using a4(1) res by simp
  show "cells h' d = cells h d" using a4(2) a3(2) s2(2) a1(2) res by simp
  show "catalog_of h' d = catalog_of h d" using a4(3) a3(3) s2(3) a1(3) res by simp
  show "topRecs \<noteq> d" using a3(4) res by simp
  show "allRecs \<noteq> d" using a4(4) res by simp
  have n1: "next_addr h1 = Suc (next_addr h)" "tmp = next_addr h"
    using al1 by (simp_all add: alloc_eq)
  have n2: "next_addr h2 = next_addr h1" by (simp add: h2_def)
  have n3: "t = next_addr h2" "next_addr h3 = Suc (next_addr h2)"
    using al3 by (simp_all add: alloc_eq)
  have n4: "l = next_addr h3"
    using al4 by (simp add: alloc_eq)
  from assms(1) have free: "\<forall>a. a \<ge> next_addr h \<longrightarrow> cells h a = None"
    by (simp add: sealed_def)
  show "cells h topRecs = None" using free n1 n2 n3 res by simp
  show "cells h allRecs = None" using free n1 n2 n3 n4 res by simp
  have "cells h3 t \<noteq> None"
    using a3(6) by simp
  with a4(8) have "cells h4 t = cells h3 t"
    by blast
  then have "cells h' topRecs = Some (Array (take 10 srt), True)"
    using a3(6) e2 res by simp
  moreover have "set (take 10 srt) \<subseteq> set (elements h d)"
    using srt set_take_subset by fastforce
  ultimately show "\<exists>as. cells h' topRecs = Some (Array as, True) \<and> set as \<subseteq> set (elements h d)"
    by blast
  have "cells h' allRecs = Some (Array srt, True)"
    using a4(6) e3 res by simp
  with srt show "\<exists>as. cells h' allRecs = Some (Array as, True) \<and> set as \<subseteq> set (elements h d)"
    by blast
qed

lemma frozen_handed_out:
  assumes "sealed h' d" "cells h' d = cells h d" "catalog_of h' d = catalog_of h d" "r \<noteq> d"
    "cells h r = None" "cells h' r = Some (Array as, True)" "set as \<subseteq> set (elements h d)"
  shows "handed_out h d r h'"
proof -
  from assms(6) have e: "elements h' r = as" by (simp add: elements_def)
  from assms(2) have "elements h' d = elements h d" by (simp add: elements_def)
  with e assms(7) have "set (elements h' r) \<subseteq> set (elements h' d)" by simp
  with assms(1,4) have w: "\<forall>x\<in>insert r (set (elements h' r)). \<forall>v h''. client_write h' x v = Inr h'' \<longrightarrow>
    sealed h'' d \<and> cells h'' d = cells h' d \<and> catalog_of h'' d = catalog_of h' d"
    by (rule writes_safe)
  from e assms(7) have sub: "set (elements h' r) \<subseteq> set (elements h d)" by simp
  show ?thesis
    unfolding handed_out_def
    using assms(1) assms(2) assms(3) assms(4) assms(5) sub w by (intro conjI)
qed

lemma freeze_items_spec:
  assumes "\<forall>a. a \<ge> next_addr h \<longrightarrow> cells h a = None" "freeze_items h gs = (as, h')"
  shows "(\<forall>a. a \<ge> next_addr h' \<longrightarrow> cells h' a = None) \<and>
    (\<forall>a\<in>set as. \<exists>g. cells h' a = Some (Item g, True)) \<and>
    List.map_filter (item_at h') as = gs \<and>
    (\<forall>a. cells h a \<noteq> None \<longrightarrow> cells h' a = cells h a)"
  using assms
proof (induction gs arbitrary: h as h')
  case Nil
  then show ?case by (simp add: map_filter_simps)
next
  case (Cons g gs)
  define a where "a = next_addr h"
  define h1 where "h1 = h\<lparr>cells := (cells h)(a \<mapsto> (Item g, True)), next_addr := Suc a\<rparr>"
  have al: "alloc h (Item g) True = (a, h1)"
    by (simp add: alloc_def a_def h1_def)
  obtain as' h2 where f: "freeze_items h1 gs = (as', h2)"
    by (cases "freeze_items h1 gs")
  from Cons.prems(2) al f have res: "as = a # as'" "h' = h2"
    by simp_all
  from Cons.prems(1) have free: "cells h a = None"
    by (simp add: a_def)
  have wf1: "\<forall>x. x \<ge> next_addr h1 \<longrightarrow> cells h1 x = None"
    using Cons.prems(1) by (simp add: h1_def a_def)
  from Cons.IH [OF wf1 f] have ih: "\<forall>x. x \<ge> next_addr h2 \<longrightarrow> cells h2 x = None"
    "\<forall>x\<in>set as'. \<exists>g. cells h2 x = Some (Item g, True)"
    "List.map_filter (item_at h2) as' = gs"
    "\<forall>x. cells h1 x \<noteq> None \<longrightarrow> cells h2 x = cells h1 x"
    by simp_all
  have c1: "cells h1 a = Some (Item g, True)"
    by (simp add: h1_def)
  then have "cells h1 a \<noteq> None" by simp
  with ih(4) have "cells h2 a = cells h1 a" by blast
  with c1 have ca: "cells h2 a = Some (Item g, True)"
    by simp
  then have ia: "item_at h2 a = Some g"
    by (simp add: item_at_def)
  have keep: "\<forall>x. cells h x \<noteq> None \<longrightarrow> cells h2 x = cells h x"
  proof (intro allI impI)
    fix x assume x: "cells h x \<noteq> None"
    with free have "x \<noteq> a" by auto
    then have 1: "cells h1 x = cells h x" by (simp add: h1_def)
    with x have "cells h1 x \<noteq> None" by simp
    with ih(4) have "cells h2 x = cells h1 x" by blast
    with 1 show "cells h2 x = cells h x" by simp
  qed
  from ih ca ia keep show ?case
    unfolding res by (simp add: map_filter_simps)
qed

lemma construct_glassesData_sealed:
  assumes "\<forall>a. a \<ge> next_addr h0 \<longrightarrow> cells h0 a = None"
    "construct_glassesData h0 now = Inr (d, h)"
  shows "sealed h d" "initializeGlassesData now = Inr (catalog_of h d)"
proof -
  from assms(2) obtain items where i: "initializeGlassesData now = Inr items"
    by (cases "initializeGlassesData now") (simp_all add: construct_glassesData_def)
  obtain as h1 where f: "freeze_items h0 items = (as, h1)"
    by (cases "freeze_items h0 items")
  from assms(2) i f have al: "alloc h1 (Array as) False = (d, h)"
    by (simp add: construct_glassesData_def)
  from freeze_items_spec [OF assms(1) f] have fs: "\<forall>a. a \<ge> next_addr h1 \<longrightarrow> cells h1 a = None"
    "\<forall>a\<in>set as. \<exists>g. cells h1 a = Some (Item g, True)"
    "List.map_filter (item_at h1) as = items"
    by simp_all
  from al have d: "d = next_addr h1"
    and h: "h = h1\<lparr>cells := (cells h1)(next_addr h1 \<mapsto> (Array as, False)), next_addr := Suc (next_addr h1)\<rparr>"
    by (simp_all add: alloc_eq)
  from fs(1) have "cells h1 (next_addr h1) = None" by simp
  with fs(2) have nd: "\<forall>a\<in>set as. a \<noteq> next_addr h1" by auto
  with h have same: "\<forall>a\<in>set as. cells h a = cells h1 a" by simp
  from h d have cd: "cells h d = Some (Array as, False)" by simp
  show "sealed h d"
    unfolding sealed_def
  proof (intro conjI allI impI)
    fix a assume "next_addr h \<le> a"
    with h fs(1) show "cells h a = None" by simp
  next
    from same fs(2) have "\<forall>a\<in>set as. \<exists>g. cells h a = Some (Item g, True)" by simp
    with cd show "\<exists>as fr. cells h d = Some (Array as, fr) \<and>
        (\<forall>a\<in>set as. \<exists>g. cells h a = Some (Item g, True))"
      by blast
  qed
  from same have "\<forall>a\<in>set as. item_at h a = item_at h1 a"
    by (simp add: item_at_def)
  then have "List.map_filter (item_at h) as = List.map_filter (item_at h1) as"
    by (rule map_filter_cong_set)
  with fs(3) cd have "catalog_of h d = items"
    by (simp add: catalog_of_def elements_def)
  with i show "initializeGlassesData now = Inr (catalog_of h d)" by simp
qed

lemma initializeGlassesData_prices:
  "\<exists>items. initializeGlassesData now = Inr items \<and>
     map numeric_price items = [95, 95, 95, 145, 145, 45, 35, 25]"
  by (simp add: initializeGlassesData_def rawData_def mk_raw_def createGlassesItem_def
      missing_fields_def Let_def)

lemma assessEligibility_glassesData:
  "assessEligibility st now h i z = Inr (r, st') \<Longrightarrow> glassesData st' = glassesData st"
  by (erule assessEligibility_cases) simp_all

lemma getPersonalizedRecommendations_glassesData:
  "getPersonalizedRecommendations st now arg = Inr (r, st') \<Longrightarrow> glassesData st' = glassesData st"
  by (erule getPersonalizedRecommendations_cases) simp_all

text \<open>
  C7. The catalog is made once, by the constructor, as a store of frozen items under the
  array \<open>_glassesData\<close>. No operation changes it: the calls that write the cache leave
  \<open>_glassesData\<close> as it is, and every accessor that hands out items hands out a new array
  (\<open>getAllGlasses\<close>, \<open>getGlassesByPriceRange\<close>, \<open>getGlassesByFrameStyle\<close>) or a frozen one
  (the lists of the recommendations), never \<open>_glassesData\<close> itself. Whatever a caller then
  writes through the array it was given or through one of its items either throws or
  leaves the catalog as it was.
\<close>

theorem catalog_never_mutated:
  "(assessEligibility st now h i z = Inr (r, st') \<longrightarrow> glassesData st' = glassesData st) \<and>
   (getPersonalizedRecommendations st now arg = Inr (r, st') \<longrightarrow> glassesData st' = glassesData st) \<and>
   glassesData (clearCache st) = glassesData st \<and>
   ((\<forall>a. a \<ge> next_addr hp0 \<longrightarrow> cells hp0 a = None) \<and>
      construct_glassesData hp0 now = Inr (d0, hp1) \<longrightarrow>
        sealed hp1 d0 \<and> initializeGlassesData now = Inr (catalog_of hp1 d0)) \<and>
   (sealed hp d \<longrightarrow>
      (getAllGlasses hp d = (a, hp') \<longrightarrow>
         handed_out hp d a hp' \<and> catalog_of hp' a = catalog_of hp d) \<and>
      (getGlassesByPriceRange hp d lo hi = Inr (a, hp') \<longrightarrow> handed_out hp d a hp') \<and>
      (getGlassesByFrameStyle hp d fs = Inr (a, hp') \<longrightarrow> handed_out hp d a hp') \<and>
      (recommendation_arrays hp d budgetMin budgetMax = ((topRecs, allRecs), hp') \<longrightarrow>
         handed_out hp d topRecs hp' \<and> handed_out hp d allRecs hp' \<and>
         (\<exists>as. cells hp' topRecs = Some (Array as, True)) \<and>
         (\<exists>as. cells hp' allRecs = Some (Array as, True))))"
proof (intro conjI impI)
  show "glassesData (clearCache st) = glassesData st"
    by (simp add: clearCache_def)
next
  assume "assessEligibility st now h i z = Inr (r, st')"
  then show "glassesData st' = glassesData st"
    by (rule assessEligibility_glassesData)
next
  assume "getPersonalizedRecommendations st now arg = Inr (r, st')"
  then show "glassesData st' = glassesData st"
    by (rule getPersonalizedRecommendations_glassesData)
next
  assume c: "(\<forall>a. a \<ge> next_addr hp0 \<longrightarrow> cells hp0 a = None) \<and>
      construct_glassesData hp0 now = Inr (d0, hp1)"
  then show "sealed hp1 d0" "initializeGlassesData now = Inr (catalog_of hp1 d0)"
    using construct_glassesData_sealed by blast+
next
  assume s: "sealed hp d" and g: "getAllGlasses hp d = (a, hp')"
  then show "handed_out hp d a hp'" "catalog_of hp' a = catalog_of hp d"
    by (rule getAllGlasses_copy)+
next
  assume "sealed hp d" "getGlassesByPriceRange hp d lo hi = Inr (a, hp')"
  then show "handed_out hp d a hp'"
    by (rule getGlassesByPriceRange_fresh)
next
  assume "sealed hp d" "getGlassesByFrameStyle hp d fs = Inr (a, hp')"
  then show "handed_out hp d a hp'"
    by (rule getGlassesByFrameStyle_fresh)
next
  assume s: "sealed hp d"
    and r: "recommendation_arrays hp d budgetMin budgetMax = ((topRecs, allRecs), hp')"
  note f = recommendation_arrays_frozen [OF s r]
  from f(8) obtain as where t: "cells hp' topRecs = Some (Array as, True)"
    "set as \<subseteq> set (elements hp d)"
    by blast
  from f(9) obtain bs where l: "cells hp' allRecs = Some (Array bs, True)"
    "set bs \<subseteq> set (elements hp d)"
    by blast
  from f(1,2,3,4,6) t show "handed_out hp d topRecs hp'"
    by (rule frozen_handed_out)
  from f(1,2,3,5,7) l show "handed_out hp d allRecs hp'"
    by (rule frozen_handed_out)
  from t show "\<exists>as. cells hp' topRecs = Some (Array as, True)" by blast
  from l show "\<exists>as. cells hp' allRecs = Some (Array as, True)" by blast
qed

end
